(* ===== verification/Go_Prelude.thy ===== *)
theory Go_Prelude
  imports Main "HOL-Library.AList" "HOL-Library.Sublist"
begin

text \<open>
  The parts of the Go language and of its standard library that the sources use, shared by
  every component: errors as lists of the sentinels they unwrap to, \<open>strconv\<close>,
  \<open>strings\<close>, \<open>unicode/utf8\<close>, times, and Go maps as association lists.

  A Go \<open>string\<close> or \<open>[]byte\<close> is an Isabelle \<open>string\<close>: a list of bytes.
  A Go \<open>map\<close> is an association list with distinct keys; \<open>len\<close> is the length of
  the list and the iteration order, which Go leaves open, is the order of the list.
  A \<open>time.Time\<close> is the number of nanoseconds since January 1 of year 1 UTC, so that
  Go's zero time is \<open>0\<close>.
\<close>

section \<open>Automation collections of the development\<close>

named_theorems go_simps \<open>rewrite rules for the modelled Go library functions\<close>
named_theorems go_eval \<open>equations that evaluate string and number functions on literals\<close>
named_theorems go_splits \<open>case splits for results and options\<close>

declare option.splits [go_splits] sum.splits [go_splits] if_splits [go_splits]
  prod.splits [go_splits]

section \<open>Errors\<close>

text \<open>
  The sentinels of every package (\<open>errors.New\<close> at package level). An error value is the
  list of sentinels it unwraps to; \<open>fmt.Errorf\<close> with one or more \<open>%w\<close> verbs
  concatenates them. An error that wraps no sentinel is \<open>Plain\<close>.
\<close>

datatype sentinel =
    Plain string
  | Syncml_ErrSyntax | Syncml_ErrNamespace | Syncml_ErrUnsupportedCommand
  | Syncml_ErrUnknownElement | Syncml_ErrFinalNotLast | Syncml_ErrTooLarge
  | Syncml_ErrInvalid | Syncml_ErrChunk | Syncml_ErrDataConflict
  | ErrVersion | ErrSessionID | ErrMsgID | ErrRouting | ErrEmptyBody | ErrCmdID
  | ErrDuplicateCmdID | ErrItems | ErrLocURI | ErrAlertCode | ErrStatusCode
  | ErrStatusRef | ErrFormat | ErrAtomicNested | ErrAtomicGet
  | ErrAtomicAddThenReplace | Syncml_ErrAuth
  | Mdm_ErrCommand | Mdm_ErrScope | Mdm_ErrNotFound | Mdm_ErrConflict
  | Mdm_ErrUnenrolled | Mdm_ErrAuth | Mdm_ErrConfig | Mdm_ErrContentType | Mdm_ErrMode
  | State_ErrNotFound | State_ErrInvalid
  | Ratelimit_ErrInvalid | Ratelimit_ErrUnavailable | Ratelimit_ErrCapacity
  | Storage_ErrNotFound | Storage_ErrConflict | Storage_ErrInvalid
  | Io_EOF | Xml_SyntaxError | Go_panic

text \<open>Sentinels by number, so that evaluating an equality does not go through all pairs.\<close>

primrec sentinel_key :: "sentinel \<Rightarrow> int \<times> string" where
  "sentinel_key (Plain t) = (0, t)"
| "sentinel_key Syncml_ErrSyntax = (1, [])"
| "sentinel_key Syncml_ErrNamespace = (2, [])"
| "sentinel_key Syncml_ErrUnsupportedCommand = (3, [])"
| "sentinel_key Syncml_ErrUnknownElement = (4, [])"
| "sentinel_key Syncml_ErrFinalNotLast = (5, [])"
| "sentinel_key Syncml_ErrTooLarge = (6, [])"
| "sentinel_key Syncml_ErrInvalid = (7, [])"
| "sentinel_key Syncml_ErrChunk = (8, [])"
| "sentinel_key Syncml_ErrDataConflict = (9, [])"
| "sentinel_key ErrVersion = (10, [])"
| "sentinel_key ErrSessionID = (11, [])"
| "sentinel_key ErrMsgID = (12, [])"
| "sentinel_key ErrRouting = (13, [])"
| "sentinel_key ErrEmptyBody = (14, [])"
| "sentinel_key ErrCmdID = (15, [])"
| "sentinel_key ErrDuplicateCmdID = (16, [])"
| "sentinel_key ErrItems = (17, [])"
| "sentinel_key ErrLocURI = (18, [])"
| "sentinel_key ErrAlertCode = (19, [])"
| "sentinel_key ErrStatusCode = (20, [])"
| "sentinel_key ErrStatusRef = (21, [])"
| "sentinel_key ErrFormat = (22, [])"
| "sentinel_key ErrAtomicNested = (23, [])"
| "sentinel_key ErrAtomicGet = (24, [])"
| "sentinel_key ErrAtomicAddThenReplace = (25, [])"
| "sentinel_key Syncml_ErrAuth = (26, [])"
| "sentinel_key Mdm_ErrCommand = (27, [])"
| "sentinel_key Mdm_ErrScope = (28, [])"
| "sentinel_key Mdm_ErrNotFound = (29, [])"
| "sentinel_key Mdm_ErrConflict = (30, [])"
| "sentinel_key Mdm_ErrUnenrolled = (31, [])"
| "sentinel_key Mdm_ErrAuth = (32, [])"
| "sentinel_key Mdm_ErrConfig = (33, [])"
| "sentinel_key Mdm_ErrContentType = (34, [])"
| "sentinel_key Mdm_ErrMode = (35, [])"
| "sentinel_key State_ErrNotFound = (36, [])"
| "sentinel_key State_ErrInvalid = (37, [])"
| "sentinel_key Ratelimit_ErrInvalid = (38, [])"
| "sentinel_key Ratelimit_ErrUnavailable = (39, [])"
| "sentinel_key Ratelimit_ErrCapacity = (40, [])"
| "sentinel_key Storage_ErrNotFound = (41, [])"
| "sentinel_key Storage_ErrConflict = (42, [])"
| "sentinel_key Storage_ErrInvalid = (43, [])"
| "sentinel_key Io_EOF = (44, [])"
| "sentinel_key Xml_SyntaxError = (45, [])"
| "sentinel_key Go_panic = (46, [])"

declare sentinel.eq.simps [code del]

lemma sentinel_key_inj: "sentinel_key a = sentinel_key b \<Longrightarrow> a = b"
  by (cases a; cases b) simp_all

lemma equal_sentinel_key [code]: "HOL.equal a b = (sentinel_key a = sentinel_key b)"
  unfolding equal_eq using sentinel_key_inj by auto

type_synonym error = "sentinel list"
type_synonym 'a result = "error + 'a"

definition errors_is :: "error \<Rightarrow> sentinel \<Rightarrow> bool" where
  "errors_is e s = (s \<in> set e)"

definition rbind :: "'a result \<Rightarrow> ('a \<Rightarrow> 'b result) \<Rightarrow> 'b result" where
  "rbind r f = (case r of Inl e \<Rightarrow> Inl e | Inr x \<Rightarrow> f x)"

lemma rbind_simps [simp]:
  "rbind (Inl e) f = Inl e"
  "rbind (Inr x) f = f x"
  by (simp_all add: rbind_def)

lemma rbind_eq_Inr [simp]: "rbind r f = Inr y \<longleftrightarrow> (\<exists>x. r = Inr x \<and> f x = Inr y)"
  by (cases r) auto

lemma rbind_eq_Inl: "rbind r f = Inl e \<longleftrightarrow> r = Inl e \<or> (\<exists>x. r = Inr x \<and> f x = Inl e)"
  by (cases r) auto

section \<open>Times\<close>

type_synonym time = int
type_synonym duration = int

definition IsZero :: "time \<Rightarrow> bool" where
  "IsZero t = (t = 0)"

text \<open>\<open>Time.Sub\<close> saturates.\<close>

definition time_Sub :: "time \<Rightarrow> time \<Rightarrow> duration" where
  "time_Sub t u = max (- (2 ^ 63)) (min (2 ^ 63 - 1) (t - u))"

section \<open>Decimal numbers: strconv\<close>

definition digit_char :: "nat \<Rightarrow> char" where
  "digit_char d = char_of (48 + d)"

definition is_digit :: "char \<Rightarrow> bool" where
  "is_digit c = (48 \<le> (of_char c :: nat) \<and> (of_char c :: nat) \<le> 57)"

definition digit_val :: "char \<Rightarrow> nat" where
  "digit_val c = of_char c - 48"

fun itoa_nat :: "nat \<Rightarrow> string" where
  "itoa_nat n = (if n < 10 then [digit_char n] else itoa_nat (n div 10) @ [digit_char (n mod 10)])"

declare itoa_nat.simps [simp del]

definition Itoa :: "int \<Rightarrow> string" where
  "Itoa n = (if n < 0 then CHR ''-'' # itoa_nat (nat (- n)) else itoa_nat (nat n))"

datatype num_error = NumSyntax | NumRange

fun parse_uint_loop :: "nat \<Rightarrow> string \<Rightarrow> num_error + nat" where
  "parse_uint_loop n [] = Inr n"
| "parse_uint_loop n (c # cs) =
     (if \<not> is_digit c then Inl NumSyntax
      else let n' = n * 10 + digit_val c
           in if 2 ^ 64 \<le> n' then Inl NumRange else parse_uint_loop n' cs)"

text \<open>
  \<open>strconv.ParseInt(s, 10, 64)\<close>, and \<open>strconv.Atoi\<close> on a 64-bit platform: the value
  and the error, the value being 0 on a syntax error and the nearest bound on a range error.
\<close>

definition ParseInt :: "string \<Rightarrow> int \<times> num_error option" where
  "ParseInt s =
     (let (neg, body) = (case s of [] \<Rightarrow> (False, [])
            | c # cs \<Rightarrow> if c = CHR ''-'' then (True, cs)
                        else if c = CHR ''+'' then (False, cs) else (False, s))
      in if body = [] then (0, Some NumSyntax)
         else case parse_uint_loop 0 body of
             Inl NumSyntax \<Rightarrow> (0, Some NumSyntax)
           | Inl NumRange \<Rightarrow> (if neg then - (2 ^ 63) else 2 ^ 63 - 1, Some NumRange)
           | Inr u \<Rightarrow>
               if \<not> neg \<and> 2 ^ 63 \<le> u then (2 ^ 63 - 1, Some NumRange)
               else if neg \<and> 2 ^ 63 < u then (- (2 ^ 63), Some NumRange)
               else (if neg then - int u else int u, None))"

abbreviation Atoi :: "string \<Rightarrow> int \<times> num_error option" where
  "Atoi \<equiv> ParseInt"

text \<open>Wrap-around of a 64-bit signed result.\<close>

definition wrap64 :: "int \<Rightarrow> int" where
  "wrap64 n = (n + 2 ^ 63) mod 2 ^ 64 - 2 ^ 63"

definition in_int64 :: "int \<Rightarrow> bool" where
  "in_int64 n = (- (2 ^ 63) \<le> n \<and> n < 2 ^ 63)"

declare ParseInt_def [go_eval] is_digit_def [go_eval] digit_val_def [go_eval] digit_char_def [go_eval]
  Let_def [go_eval]

lemma of_char_digit_char [simp]: "d < 10 \<Longrightarrow> of_char (digit_char d) = 48 + (d :: nat)"
  by (simp add: digit_char_def)

lemma is_digit_digit_char [simp]: "d < 10 \<Longrightarrow> is_digit (digit_char d)"
  by (simp add: is_digit_def)

lemma digit_val_digit_char [simp]: "d < 10 \<Longrightarrow> digit_val (digit_char d) = d"
  by (simp add: digit_val_def)

lemma itoa_nat_nonempty [simp]: "itoa_nat n \<noteq> []"
  by (subst itoa_nat.simps) simp

lemma itoa_nat_digits: "c \<in> set (itoa_nat n) \<Longrightarrow> is_digit c"
proof (induction n rule: itoa_nat.induct)
  case (1 n)
  then show ?case
    by (subst (asm) itoa_nat.simps) (auto split: if_splits)
qed

lemma parse_uint_loop_append:
  "parse_uint_loop n (xs @ ys) =
     (case parse_uint_loop n xs of Inl e \<Rightarrow> Inl e | Inr m \<Rightarrow> parse_uint_loop m ys)"
  by (induction xs arbitrary: n) (auto simp: Let_def)

lemma parse_uint_loop_itoa: "n < 2 ^ 64 \<Longrightarrow> parse_uint_loop 0 (itoa_nat n) = Inr n"
proof (induction n rule: itoa_nat.induct)
  case (1 n)
  show ?case
  proof (cases "n < 10")
    case True
    then show ?thesis by (subst itoa_nat.simps) (simp add: Let_def)
  next
    case False
    with 1 have "parse_uint_loop 0 (itoa_nat (n div 10)) = Inr (n div 10)" by auto
    moreover have "n div 10 * 10 + n mod 10 = n" by simp
    ultimately show ?thesis
      using False 1 by (subst itoa_nat.simps) (simp add: parse_uint_loop_append Let_def)
  qed
qed

lemma itoa_nat_hd: "hd (itoa_nat n) \<noteq> CHR ''-'' \<and> hd (itoa_nat n) \<noteq> CHR ''+''"
proof -
  have "is_digit (hd (itoa_nat n))"
    by (rule itoa_nat_digits [of _ n]) simp
  then show ?thesis by (auto simp: is_digit_def)
qed

lemma Atoi_Itoa [go_simps]: "in_int64 n \<Longrightarrow> Atoi (Itoa n) = (n, None)"
proof (cases "n < 0")
  case True
  assume "in_int64 n"
  with True have "parse_uint_loop 0 (itoa_nat (nat (- n))) = Inr (nat (- n))"
    by (intro parse_uint_loop_itoa) (simp add: in_int64_def)
  with True \<open>in_int64 n\<close> show ?thesis
    by (simp add: ParseInt_def Itoa_def in_int64_def)
next
  case False
  assume "in_int64 n"
  with False have "parse_uint_loop 0 (itoa_nat (nat n)) = Inr (nat n)"
    by (intro parse_uint_loop_itoa) (simp add: in_int64_def)
  moreover obtain c cs where "itoa_nat (nat n) = c # cs"
    by (cases "itoa_nat (nat n)") auto
  moreover from this itoa_nat_hd [of "nat n"] have "c \<noteq> CHR ''-''" "c \<noteq> CHR ''+''" by auto
  ultimately show ?thesis using False \<open>in_int64 n\<close>
    by (simp add: ParseInt_def Itoa_def in_int64_def)
qed

lemma Itoa_nonempty [simp]: "Itoa n \<noteq> []"
  by (simp add: Itoa_def)

lemma itoa_nat_value: "foldl (\<lambda>v c. v * 10 + digit_val c) 0 (itoa_nat n) = n"
proof (induction n rule: itoa_nat.induct)
  case (1 n)
  then show ?case
    by (cases "n < 10") (simp_all add: itoa_nat.simps [of n])
qed

lemma itoa_nat_inj: "itoa_nat m = itoa_nat n \<Longrightarrow> m = n"
  by (metis itoa_nat_value)

lemma Itoa_inj [simp]: "Itoa m = Itoa n \<longleftrightarrow> m = n"
proof
  assume eq: "Itoa m = Itoa n"
  have "hd (itoa_nat k) \<noteq> CHR ''-''" for k by (simp add: itoa_nat_hd)
  then have "CHR ''-'' # xs \<noteq> itoa_nat k" for xs k by (metis list.sel(1))
  with eq show "m = n"
    by (auto simp: Itoa_def split: if_splits dest!: itoa_nat_inj) (metis \<open>\<And>xs k. CHR ''-'' # xs \<noteq> itoa_nat k\<close>)+
qed simp

lemma wrap64_id [simp]: "in_int64 n \<Longrightarrow> wrap64 n = n"
  by (simp add: wrap64_def in_int64_def)

lemma wrap64_in [simp]: "in_int64 (wrap64 n)"
  using pos_mod_bound [of "2 ^ 64" "n + 2 ^ 63"] by (simp add: wrap64_def in_int64_def)

text \<open>The bounds as numerals, for evaluation.\<close>

lemma parse_uint_loop_code [code]:
  "parse_uint_loop n [] = Inr n"
  "parse_uint_loop n (c # cs) =
     (if \<not> is_digit c then Inl NumSyntax
      else let n' = n * 10 + digit_val c
           in if 18446744073709551616 \<le> int n' then Inl NumRange else parse_uint_loop n' cs)"
  by (simp_all add: Let_def)

lemma ParseInt_code [code]:
  "ParseInt s =
     (let (neg, body) = (case s of [] \<Rightarrow> (False, [])
            | c # cs \<Rightarrow> if c = CHR ''-'' then (True, cs)
                        else if c = CHR ''+'' then (False, cs) else (False, s))
      in if body = [] then (0, Some NumSyntax)
         else case parse_uint_loop 0 body of
             Inl NumSyntax \<Rightarrow> (0, Some NumSyntax)
           | Inl NumRange \<Rightarrow> (if neg then - 9223372036854775808 else 9223372036854775807, Some NumRange)
           | Inr u \<Rightarrow>
               if \<not> neg \<and> 9223372036854775808 \<le> int u then (9223372036854775807, Some NumRange)
               else if neg \<and> 9223372036854775808 < int u then (- 9223372036854775808, Some NumRange)
               else (if neg then - int u else int u, None))"
  by (simp add: ParseInt_def Let_def split: list.split sum.split num_error.split)

lemma in_int64_code [code]: "in_int64 n = (- 9223372036854775808 \<le> n \<and> n < 9223372036854775808)"
  by (simp add: in_int64_def)

lemma wrap64_code [code]:
  "wrap64 n = (if in_int64 n then n else (n + 9223372036854775808) mod 18446744073709551616 - 9223372036854775808)"
  using wrap64_id [of n] by (simp add: wrap64_def)

lemma set_map_filter_iff [simp]: "y \<in> set (List.map_filter f xs) \<longleftrightarrow> (\<exists>x \<in> set xs. f x = Some y)"
  by (induction xs) (auto split: option.splits)

end
