(* ===== verification/Go_Strings.thy ===== *)
theory Go_Strings
  imports Go_Prelude
begin

text \<open>
  The functions of \<open>strings\<close>, \<open>unicode/utf8\<close> and \<open>encoding/base64\<close> the sources
  call, on byte lists.
\<close>

section \<open>UTF-8\<close>

abbreviation byte :: "char \<Rightarrow> nat" where
  "byte c \<equiv> of_char c"

definition RuneStart :: "char \<Rightarrow> bool" where
  "RuneStart c = (\<not> (128 \<le> byte c \<and> byte c < 192))"

definition cont :: "char \<Rightarrow> bool" where
  "cont c = (128 \<le> byte c \<and> byte c < 192)"

definition in_range :: "nat \<Rightarrow> nat \<Rightarrow> char \<Rightarrow> bool" where
  "in_range lo hi c = (lo \<le> byte c \<and> byte c \<le> hi)"

definition rune_error :: nat where
  "rune_error = 65533"

text \<open>
  \<open>utf8.DecodeRune\<close>: the rune and its width. An encoding that is not valid UTF-8 (a stray
  continuation byte, an overlong form, a surrogate, a value above U+10FFFF, a truncated
  sequence) is U+FFFD of width 1; the empty string is U+FFFD of width 0.
\<close>

definition second_range :: "nat \<Rightarrow> nat \<times> nat" where
  "second_range b0 =
     (if b0 = 224 then (160, 191) else if b0 = 237 then (128, 159)
      else if b0 = 240 then (144, 191) else if b0 = 244 then (128, 143) else (128, 191))"

fun DecodeRune :: "string \<Rightarrow> nat \<times> nat" where
  "DecodeRune [] = (rune_error, 0)"
| "DecodeRune (c0 # cs) =
     (let b0 = byte c0 in
      if b0 < 128 then (b0, 1)
      else if b0 < 194 \<or> 244 < b0 then (rune_error, 1)
      else case cs of
          [] \<Rightarrow> (rune_error, 1)
        | c1 # cs1 \<Rightarrow>
            if \<not> in_range (fst (second_range b0)) (snd (second_range b0)) c1 then (rune_error, 1)
            else if b0 < 224 then ((b0 - 192) * 64 + (byte c1 - 128), 2)
            else (case cs1 of
                [] \<Rightarrow> (rune_error, 1)
              | c2 # cs2 \<Rightarrow>
                  if \<not> cont c2 then (rune_error, 1)
                  else if b0 < 240
                    then ((b0 - 224) * 4096 + (byte c1 - 128) * 64 + (byte c2 - 128), 3)
                  else (case cs2 of
                      [] \<Rightarrow> (rune_error, 1)
                    | c3 # _ \<Rightarrow>
                        if \<not> cont c3 then (rune_error, 1)
                        else ((b0 - 240) * 262144 + (byte c1 - 128) * 4096
                               + (byte c2 - 128) * 64 + (byte c3 - 128), 4))))"

text \<open>\<open>utf8.ValidString\<close>.\<close>

definition rune_ok :: "string \<Rightarrow> bool" where
  "rune_ok s = (DecodeRune s \<noteq> (rune_error, 1))"

lemma DecodeRune_width:
  assumes "s \<noteq> []"
  shows "1 \<le> snd (DecodeRune s)" "snd (DecodeRune s) \<le> 4" "snd (DecodeRune s) \<le> length s"
  using assms by (cases s; simp add: Let_def split: list.splits if_splits)+

function ValidString :: "string \<Rightarrow> bool" where
  "ValidString s =
     (if s = [] then True
      else if \<not> rune_ok s then False
      else ValidString (drop (snd (DecodeRune s)) s))"
  by pat_completeness auto
termination
  by (relation "measure length") (use DecodeRune_width in \<open>auto simp: Suc_le_eq\<close>)

declare ValidString.simps [simp del]

lemma second_range_cont: "in_range (fst (second_range b)) (snd (second_range b)) c \<Longrightarrow> cont c"
  by (auto simp: in_range_def second_range_def cont_def split: if_splits)

lemma RuneStart_cont: "RuneStart c \<longleftrightarrow> \<not> cont c"
  by (simp add: RuneStart_def cont_def)

lemma rune_ok_cases:
  assumes "rune_ok (c0 # cs)"
  obtains (one) "byte c0 < 128"
    | (two) c1 r where "cs = c1 # r" "194 \<le> byte c0" "byte c0 < 224"
        "in_range (fst (second_range (byte c0))) (snd (second_range (byte c0))) c1"
    | (three) c1 c2 r where "cs = c1 # c2 # r" "224 \<le> byte c0" "byte c0 < 240"
        "in_range (fst (second_range (byte c0))) (snd (second_range (byte c0))) c1" "cont c2"
    | (four) c1 c2 c3 r where "cs = c1 # c2 # c3 # r" "240 \<le> byte c0" "byte c0 \<le> 244"
        "in_range (fst (second_range (byte c0))) (snd (second_range (byte c0))) c1" "cont c2" "cont c3"
proof (cases "byte c0 < 128")
  case ge: False
  with assms have b: "194 \<le> byte c0" "byte c0 \<le> 244"
    by (auto simp: rune_ok_def Let_def not_less [symmetric] simp del: not_less)
  with assms ge obtain c1 r where 1: "cs = c1 # r"
    "in_range (fst (second_range (byte c0))) (snd (second_range (byte c0))) c1"
    by (cases cs) (auto simp: rune_ok_def Let_def split: if_splits)
  show ?thesis
  proof (cases "byte c0 < 224")
    case ge: False
    with assms 1 b obtain c2 r' where 2: "r = c2 # r'" "cont c2"
      by (cases r) (auto simp: rune_ok_def Let_def split: if_splits)
    show ?thesis
    proof (cases "byte c0 < 240")
      case False
      with assms 1 2 b ge obtain c3 r'' where 3: "r' = c3 # r''" "cont c3"
        by (cases r') (auto simp: rune_ok_def Let_def split: if_splits)
      show ?thesis using four 1 2 3 b False by simp
    qed (use three 1 2 ge in simp)
  qed (use two 1 b in simp)
qed (use one in simp)

lemma rune_local:
  assumes "rune_ok s" "s \<noteq> []"
  shows "DecodeRune (take (snd (DecodeRune s)) s @ t) = DecodeRune s"
    and "\<lbrakk>0 < i; i < snd (DecodeRune s)\<rbrakk> \<Longrightarrow> cont (s ! i)"
proof -
  obtain c cs where s: "s = c # cs" and ok: "rune_ok (c # cs)"
    using assms by (cases s) auto
  show "DecodeRune (take (snd (DecodeRune s)) s @ t) = DecodeRune s"
    unfolding s using ok by (cases rule: rune_ok_cases) (simp_all add: Let_def)
  show "cont (s ! i)" if i: "0 < i" "i < snd (DecodeRune s)"
  proof -
    consider "i = 1" | "i = 2" | "i = 3"
      using i DecodeRune_width(2) [OF assms(2)] by linarith
    note i_cases = this
    show ?thesis
      using ok
    proof (cases rule: rune_ok_cases)
      case one
      then show ?thesis using i by (simp add: s Let_def)
    qed (use i_cases i(2) in \<open>cases; simp add: s Let_def second_range_cont\<close>)+
  qed
qed

lemma ValidString_cut:
  assumes "ValidString s" "k < length s" "RuneStart (s ! k)"
  shows "ValidString (take k s) \<and> ValidString (drop k s)"
  using assms
proof (induction s arbitrary: k rule: ValidString.induct)
  case (1 s)
  let ?w = "snd (DecodeRune s)"
  have s: "s \<noteq> []" using 1 by auto
  then have ok: "rune_ok s" and rest: "ValidString (drop ?w s)"
    using "1.prems"(1) by (simp_all add: ValidString.simps [of s] split: if_splits)
  show ?case
  proof (cases "k = 0")
    case True
    then show ?thesis using 1 by (simp add: ValidString.simps [of "[]"])
  next
    case False
    then have "\<not> k < ?w"
      using rune_local(2) [OF ok s, of k] "1.prems"(3) by (auto simp: RuneStart_cont)
    then have "?w \<le> k" by simp
    then obtain j where j: "k = ?w + j" by (metis le_Suc_ex)
    have "ValidString (take j (drop ?w s)) \<and> ValidString (drop j (drop ?w s))"
      using "1.IH" [of j] s ok rest "1.prems" by (simp add: j)
    moreover have t: "take k s = take ?w s @ take j (drop ?w s)"
      by (simp add: j take_add)
    ultimately have "ValidString (take k s)"
      using rune_local(1) [OF ok s] ok s DecodeRune_width [OF s]
      by (subst ValidString.simps) (simp add: rune_ok_def)
    then show ?thesis
      using \<open>ValidString _ \<and> ValidString (drop j _)\<close> by (simp add: j add.commute)
  qed
qed

lemma rune_ok_start: "rune_ok (c # cs) \<Longrightarrow> RuneStart c"
  by (erule rune_ok_cases) (auto simp: RuneStart_def)

lemma ValidString_next_start:
  assumes "ValidString s" "s \<noteq> []" "snd (DecodeRune s) < length s"
  shows "RuneStart (s ! snd (DecodeRune s))"
proof -
  obtain c cs where d: "drop (snd (DecodeRune s)) s = c # cs"
    using assms(3) by (cases "drop (snd (DecodeRune s)) s") auto
  then have "ValidString (c # cs)"
    using assms by (metis ValidString.simps)
  then have "RuneStart c"
    by (subst (asm) ValidString.simps) (auto simp: rune_ok_start split: if_splits)
  then show ?thesis
    using assms(3) d by (metis hd_drop_conv_nth list.sel(1))
qed

section \<open>Searching and splitting\<close>

abbreviation HasPrefix :: "string \<Rightarrow> string \<Rightarrow> bool" where
  "HasPrefix s p \<equiv> prefix p s"

fun Split :: "char \<Rightarrow> string \<Rightarrow> string list" where
  "Split sep [] = [[]]"
| "Split sep (c # cs) =
     (if c = sep then [] # Split sep cs
      else case Split sep cs of
          [] \<Rightarrow> [[c]]
        | w # ws \<Rightarrow> (c # w) # ws)"

fun Join :: "char \<Rightarrow> string list \<Rightarrow> string" where
  "Join sep [] = []"
| "Join sep [w] = w"
| "Join sep (w # v # ws) = w @ sep # Join sep (v # ws)"

text \<open>\<open>strings.IndexByte\<close> followed by slicing: the part before the first occurrence.\<close>

definition before :: "char \<Rightarrow> string \<Rightarrow> string" where
  "before c s = takeWhile (\<lambda>x. x \<noteq> c) s"

text \<open>\<open>strings.Cut(s, sep)\<close> for a one-byte separator.\<close>

definition Cut :: "char \<Rightarrow> string \<Rightarrow> (string \<times> string) option" where
  "Cut c s = (if c \<in> set s then Some (before c s, tl (dropWhile (\<lambda>x. x \<noteq> c) s)) else None)"

section \<open>White space\<close>

text \<open>
  The UTF-8 encodings of the runes for which \<open>unicode.IsSpace\<close> holds: tab, newline, vertical
  tab, form feed, carriage return, space, U+0085, U+00A0, U+1680, U+2000 to U+200A, U+2028,
  U+2029, U+202F, U+205F and U+3000. A rune at either end of a string decodes to one of them
  exactly when the string begins, or ends, with its encoding.
\<close>

definition space_runes :: "nat list list" where
  "space_runes = [[9], [10], [11], [12], [13], [32], [194, 133], [194, 160], [225, 154, 128],
     [226, 128, 128], [226, 128, 129], [226, 128, 130], [226, 128, 131], [226, 128, 132],
     [226, 128, 133], [226, 128, 134], [226, 128, 135], [226, 128, 136], [226, 128, 137],
     [226, 128, 138], [226, 128, 168], [226, 128, 169], [226, 128, 175], [226, 129, 159],
     [227, 128, 128]]"

definition space_strings :: "string list" where
  "space_strings = map (map char_of) space_runes"

definition space_prefix :: "string list \<Rightarrow> string \<Rightarrow> nat" where
  "space_prefix sps s = (case find (\<lambda>p. prefix p s) sps of None \<Rightarrow> 0 | Some p \<Rightarrow> length p)"

function trim_left :: "string list \<Rightarrow> string \<Rightarrow> string" where
  "trim_left sps s =
     (let n = space_prefix sps s in if n = 0 \<or> s = [] then s else trim_left sps (drop n s))"
  by pat_completeness auto
termination
  by (relation "measure (\<lambda>(sps, s). length s)") (auto simp: Let_def)

declare trim_left.simps [simp del]

definition TrimSpace :: "string \<Rightarrow> string" where
  "TrimSpace s =
     rev (trim_left (map rev space_strings) (rev (trim_left space_strings s)))"

section \<open>Case folding\<close>

definition lower_ascii :: "char \<Rightarrow> char" where
  "lower_ascii c = (if 65 \<le> byte c \<and> byte c \<le> 90 then char_of (byte c + 32) else c)"

text \<open>
  \<open>strings.EqualFold(s, t)\<close> where \<open>t\<close> is an ASCII string, as it is in every call the
  modelled code makes. Simple case folding maps only two runes outside ASCII to ASCII letters:
  U+017F (bytes 197 191) to \<open>s\<close> and U+212A (bytes 226 132 170) to \<open>k\<close>.
\<close>

fun fold_ascii :: "string \<Rightarrow> string" where
  "fold_ascii [] = []"
| "fold_ascii (a # b # c # cs) =
     (if byte a = 226 \<and> byte b = 132 \<and> byte c = 170 then CHR ''k'' # fold_ascii cs
      else if byte a = 197 \<and> byte b = 191 then CHR ''s'' # fold_ascii (c # cs)
      else lower_ascii a # fold_ascii (b # c # cs))"
| "fold_ascii [a, b] =
     (if byte a = 197 \<and> byte b = 191 then [CHR ''s''] else [lower_ascii a, lower_ascii b])"
| "fold_ascii [a] = [lower_ascii a]"

definition EqualFold :: "string \<Rightarrow> string \<Rightarrow> bool" where
  "EqualFold s t = (fold_ascii s = fold_ascii t)"

section \<open>Base64\<close>

text \<open>\<open>base64.StdEncoding\<close>: the standard alphabet with padding.\<close>

definition b64_char :: "nat \<Rightarrow> char" where
  "b64_char n =
     (if n < 26 then char_of (65 + n) else if n < 52 then char_of (71 + n)
      else if n < 62 then char_of (n - 4) else if n = 62 then CHR ''+'' else CHR ''/'')"

definition b64_val :: "char \<Rightarrow> nat option" where
  "b64_val c =
     (let b = byte c in
      if 65 \<le> b \<and> b \<le> 90 then Some (b - 65)
      else if 97 \<le> b \<and> b \<le> 122 then Some (b - 71)
      else if 48 \<le> b \<and> b \<le> 57 then Some (b + 4)
      else if c = CHR ''+'' then Some 62
      else if c = CHR ''/'' then Some 63
      else None)"

fun b64_encode :: "string \<Rightarrow> string" where
  "b64_encode (a # b # c # cs) =
     b64_char (byte a div 4) # b64_char (byte a mod 4 * 16 + byte b div 16)
     # b64_char (byte b mod 16 * 4 + byte c div 64) # b64_char (byte c mod 64)
     # b64_encode cs"
| "b64_encode [a, b] =
     [b64_char (byte a div 4), b64_char (byte a mod 4 * 16 + byte b div 16),
      b64_char (byte b mod 16 * 4), CHR ''='']"
| "b64_encode [a] = [b64_char (byte a div 4), b64_char (byte a mod 4 * 16), CHR ''='', CHR ''='']"
| "b64_encode [] = []"

text \<open>
  \<open>DecodeString\<close> ignores carriage returns and newlines, wants whole quanta of four
  characters, allows padding only at the very end, and, not being \<open>Strict\<close>, does not look at
  the unused bits before the padding.
\<close>

fun b64_quanta :: "string \<Rightarrow> string option" where
  "b64_quanta [] = Some []"
| "b64_quanta (w # x # y # z # rest) =
     (case (b64_val w, b64_val x) of
        (Some a, Some b) \<Rightarrow>
          if y = CHR ''='' then
            (if z = CHR ''='' \<and> rest = [] then Some [char_of (a * 4 + b div 16)] else None)
          else (case b64_val y of
              None \<Rightarrow> None
            | Some c \<Rightarrow>
                if z = CHR ''='' then
                  (if rest = []
                   then Some [char_of (a * 4 + b div 16), char_of (b mod 16 * 16 + c div 4)]
                   else None)
                else (case b64_val z of
                    None \<Rightarrow> None
                  | Some d \<Rightarrow>
                      map_option (\<lambda>out. char_of (a * 4 + b div 16)
                        # char_of (b mod 16 * 16 + c div 4) # char_of (c mod 4 * 64 + d) # out)
                        (b64_quanta rest)))
      | _ \<Rightarrow> None)"
| "b64_quanta _ = None"

definition b64_decode :: "string \<Rightarrow> string option" where
  "b64_decode s = b64_quanta (filter (\<lambda>c. byte c \<noteq> 10 \<and> byte c \<noteq> 13) s)"

section \<open>Facts about the library functions\<close>

lemma Split_nonempty [simp]: "Split sep s \<noteq> []"
  by (cases s) (auto split: list.splits)

lemma Join_Cons: "ws \<noteq> [] \<Longrightarrow> Join sep (w # ws) = w @ sep # Join sep ws"
  by (cases ws) auto

lemma Join_Split [simp]: "Join sep (Split sep s) = s"
proof (induction s)
  case (Cons c cs)
  obtain w ws where "Split sep cs = w # ws"
    by (cases "Split sep cs") auto
  with Cons show ?case by (cases ws) auto
qed simp

lemma Split_no_sep: "w \<in> set (Split sep s) \<Longrightarrow> sep \<notin> set w"
  by (induction s arbitrary: w) (auto split: list.splits if_splits)

lemma byte_less [simp]: "byte c < 256"
  by (cases c) (simp add: of_char_Char)

text \<open>The three splits of a byte across two sextets, and that they are sextets.\<close>

lemma sextet_bounds:
  "byte a div 4 < 64" "byte a mod 4 * 16 + byte b div 16 < 64"
  "byte b mod 16 * 4 + byte c div 64 < 64" "byte c mod 64 < 64"
  "byte a mod 4 * 16 < 64" "byte b mod 16 * 4 < 64"
  using byte_less [of a] byte_less [of b] byte_less [of c] by linarith+

lemma sextet_join [simp]:
  "byte b div 16 div 16 = 0" "byte b div 16 mod 16 = byte b div 16"
  "byte c div 64 div 4 = 0" "byte c div 64 mod 4 = byte c div 64"
proof -
  have "byte b div 16 < 16" "byte c div 64 < 4"
    using byte_less [of b] byte_less [of c] by linarith+
  then show "byte b div 16 div 16 = 0" "byte b div 16 mod 16 = byte b div 16"
    "byte c div 64 div 4 = 0" "byte c div 64 mod 4 = byte c div 64"
    by simp_all
qed

lemma b64_val_b64_char [simp]: "n < 64 \<Longrightarrow> b64_val (b64_char n) = Some n"
proof -
  assume "n < 64"
  then consider "n < 26" | "26 \<le> n" "n < 52" | "52 \<le> n" "n < 62" | "n = 62" | "n = 63"
    by linarith
  then show ?thesis
    by cases (auto simp: b64_char_def b64_val_def Let_def)
qed

lemma b64_char_safe [simp]:
  assumes "n < 64"
  shows "b64_char n \<noteq> CHR ''=''" "byte (b64_char n) \<noteq> 10" "byte (b64_char n) \<noteq> 13"
proof -
  from assms have "b64_val (b64_char n) \<noteq> None" by simp
  then show "b64_char n \<noteq> CHR ''=''" "byte (b64_char n) \<noteq> 10" "byte (b64_char n) \<noteq> 13"
    by (auto simp: b64_val_def Let_def split: if_splits)
qed

lemma b64_quanta_encode: "b64_quanta (b64_encode s) = Some s"
  by (induction s rule: b64_encode.induct) (simp_all add: sextet_bounds)

lemma b64_encode_no_newline: "c \<in> set (b64_encode s) \<Longrightarrow> byte c \<noteq> 10 \<and> byte c \<noteq> 13"
  by (induction s rule: b64_encode.induct) (auto simp: sextet_bounds)

lemma b64_decode_encode [go_simps]: "b64_decode (b64_encode s) = Some s"
proof -
  have "filter (\<lambda>c. byte c \<noteq> 10 \<and> byte c \<noteq> 13) (b64_encode s) = b64_encode s"
    by (rule filter_True) (use b64_encode_no_newline in blast)
  then show ?thesis by (simp add: b64_decode_def b64_quanta_encode)
qed

text \<open>Strings that begin and end with a visible ASCII character are left alone by \<open>TrimSpace\<close>.\<close>

definition visible :: "char \<Rightarrow> bool" where
  "visible c = (33 \<le> byte c \<and> byte c \<le> 126)"

lemma space_prefix_visible:
  assumes "visible c"
  shows "space_prefix space_strings (c # s) = 0" "space_prefix (map rev space_strings) (c # s) = 0"
proof -
  have "char_of n \<noteq> c" if "n < 256" "n < 33 \<or> 126 < n" for n :: nat
  proof
    assume "char_of n = c"
    then have "byte c = n" using that by auto
    then show False using assms that by (simp add: visible_def)
  qed
  then show "space_prefix space_strings (c # s) = 0" "space_prefix (map rev space_strings) (c # s) = 0"
    by (simp_all add: space_prefix_def space_strings_def space_runes_def)
qed

lemma trim_left_visible:
  assumes "visible c"
  shows "trim_left space_strings (c # s) = c # s" "trim_left (map rev space_strings) (c # s) = c # s"
  using space_prefix_visible [OF assms, of s] by (subst trim_left.simps; simp)+

lemma TrimSpace_Nil [simp]: "TrimSpace [] = []"
  by (simp add: TrimSpace_def trim_left.simps)

lemma TrimSpace_visible [simp]:
  assumes "s \<noteq> [] \<longrightarrow> visible (hd s) \<and> visible (last s)"
  shows "TrimSpace s = s"
proof (cases s)
  case (Cons c cs)
  obtain d ds where r: "rev s = d # ds"
    using Cons by (cases "rev s") auto
  then have "visible c" "visible d"
    using assms Cons by (auto simp: hd_rev [symmetric])
  then show ?thesis
    using r Cons trim_left_visible by (simp add: TrimSpace_def) (metis rev_rev_ident rev.simps(2))
qed simp

lemma b64_char_visible: "n < 64 \<Longrightarrow> visible (b64_char n)"
proof -
  assume "n < 64"
  then have "b64_val (b64_char n) \<noteq> None" by simp
  then show ?thesis
    by (auto simp: b64_val_def visible_def Let_def split: if_splits)
qed

lemma b64_encode_visible: "c \<in> set (b64_encode s) \<Longrightarrow> visible c"
proof (induction s rule: b64_encode.induct)
  case (1 a b c cs)
  then show ?case by (auto simp: sextet_bounds b64_char_visible)
qed (auto simp: sextet_bounds b64_char_visible simp: visible_def [of "CHR ''=''"])

lemma TrimSpace_b64 [simp]: "TrimSpace (b64_encode s) = b64_encode s"
  using b64_encode_visible [of _ s] by (intro TrimSpace_visible) simp

lemma Cut_app [simp]: "c \<notin> set u \<Longrightarrow> Cut c (u @ c # p) = Some (u, p)"
  by (induction u) (auto simp: Cut_def before_def)

text \<open>Equations for evaluation, which decide the common case on integers and booleans.\<close>

lemma of_char_nat_int: "(of_char c :: nat) \<le> n \<longleftrightarrow> (of_char c :: int) \<le> int n"
  "n \<le> (of_char c :: nat) \<longleftrightarrow> int n \<le> (of_char c :: int)" "(of_char c :: nat) = n \<longleftrightarrow> (of_char c :: int) = int n"
  using of_nat_of_char [where 'a = int, of c] by linarith+

lemma visible_code [code]: "visible c = (33 \<le> (of_char c :: int) \<and> (of_char c :: int) \<le> 126)"
  by (simp add: visible_def of_char_nat_int)

lemma is_digit_code [code]: "is_digit c = (48 \<le> (of_char c :: int) \<and> (of_char c :: int) \<le> 57)"
  by (simp add: is_digit_def of_char_nat_int)

lemma TrimSpace_code [code]:
  "TrimSpace s = (if s = [] \<or> visible (hd s) \<and> visible (last s) then s
     else rev (trim_left (map rev space_strings) (rev (trim_left space_strings s))))"
  by (auto simp: TrimSpace_def [symmetric])

lemma lower_ascii_code [code]:
  "lower_ascii c = (if 65 \<le> (of_char c :: int) \<and> (of_char c :: int) \<le> 90 then char_of ((of_char c :: int) + 32) else c)"
  using of_nat_of_char [where 'a = int, of c] char_of_nat [where 'a = int, of "of_char c + 32"]
  by (simp add: lower_ascii_def of_char_nat_int)

lemma fold_ascii_code [code]:
  "fold_ascii [] = []"
  "fold_ascii [a] = [lower_ascii a]"
  "fold_ascii (a # b # s) =
     (if (of_char a :: int) < 128 then lower_ascii a # fold_ascii (b # s)
      else if byte a = 226 \<and> byte b = 132 \<and> s \<noteq> [] \<and> byte (hd s) = 170 then CHR ''k'' # fold_ascii (tl s)
      else if byte a = 197 \<and> byte b = 191 then CHR ''s'' # fold_ascii s
      else lower_ascii a # fold_ascii (b # s))"
  by (cases s; auto simp: of_char_nat_int)+

end
