(* ===== verification/Syncml_Message.thy ===== *)
theory Syncml_Message
  imports Go_Strings
begin

text \<open>
  The SyncML message model of \<open>mdmprotocol/syncml\<close> (\<open>message.go\<close>, \<open>constants.go\<close>):
  the header, the ten commands Windows exchanges, items and their metadata, and the numeric
  alert and status codes. A Go pointer that may be nil is an \<open>option\<close>.
\<close>

section \<open>Constants\<close>

definition NamespaceSyncML12 :: string where "NamespaceSyncML12 = ''SYNCML:SYNCML1.2''"
definition NamespaceSyncML11 :: string where "NamespaceSyncML11 = ''SYNCML:SYNCML1.1''"
definition NamespaceMetInf :: string where "NamespaceMetInf = ''syncml:metinf''"
definition NamespaceMSFT :: string where
  "NamespaceMSFT = ''http://schemas.microsoft.com/MobileDevice/MDM''"
definition VerDTD :: string where "VerDTD = ''1.2''"
definition VerProto :: string where "VerProto = ''DM/1.2''"

lemmas syncml_namespaces = NamespaceSyncML12_def NamespaceSyncML11_def NamespaceMetInf_def
  NamespaceMSFT_def VerDTD_def VerProto_def

definition CmdAdd :: string where "CmdAdd = ''Add''"
definition CmdAlert :: string where "CmdAlert = ''Alert''"
definition CmdAtomic :: string where "CmdAtomic = ''Atomic''"
definition CmdDelete :: string where "CmdDelete = ''Delete''"
definition CmdExec :: string where "CmdExec = ''Exec''"
definition CmdGet :: string where "CmdGet = ''Get''"
definition CmdReplace :: string where "CmdReplace = ''Replace''"
definition CmdResults :: string where "CmdResults = ''Results''"
definition CmdSequence :: string where "CmdSequence = ''Sequence''"
definition CmdStatus :: string where "CmdStatus = ''Status''"
definition CmdSyncHdr :: string where "CmdSyncHdr = ''SyncHdr''"

lemmas cmd_names = CmdAdd_def CmdAlert_def CmdAtomic_def CmdDelete_def CmdExec_def CmdGet_def
  CmdReplace_def CmdResults_def CmdSequence_def CmdStatus_def CmdSyncHdr_def

text \<open>\<open>AlertCode\<close> and \<open>StatusCode\<close> are Go integers.\<close>

definition AlertServerInitiated :: int where "AlertServerInitiated = 1200"
definition AlertClientInitiated :: int where "AlertClientInitiated = 1201"
definition AlertNextMessage :: int where "AlertNextMessage = 1222"
definition AlertSessionAbort :: int where "AlertSessionAbort = 1223"
definition AlertClientEvent :: int where "AlertClientEvent = 1224"
definition AlertNoEndOfData :: int where "AlertNoEndOfData = 1225"
definition AlertGeneric :: int where "AlertGeneric = 1226"

lemmas alert_codes = AlertServerInitiated_def AlertClientInitiated_def AlertNextMessage_def
  AlertSessionAbort_def AlertClientEvent_def AlertNoEndOfData_def AlertGeneric_def

definition alert_Known :: "int \<Rightarrow> bool" where
  "alert_Known c = (c \<in> {AlertServerInitiated, AlertClientInitiated, AlertNextMessage,
     AlertSessionAbort, AlertClientEvent, AlertNoEndOfData, AlertGeneric})"

definition AlertTypeLoginStatus :: string where
  "AlertTypeLoginStatus = ''com.microsoft/MDM/LoginStatus''"
definition AlertTypeSyncType :: string where
  "AlertTypeSyncType = ''com.microsoft.mdm.synctype''"
definition AlertTypeDevicePrepSync :: string where
  "AlertTypeDevicePrepSync = ''com.microsoft/MDM/DevicePrepSync''"
definition AlertTypeUnenrollmentUserRequest :: string where
  "AlertTypeUnenrollmentUserRequest = ''com.microsoft:mdm.unenrollment.userrequest''"
definition LoginStatusUser :: string where "LoginStatusUser = ''user''"

lemmas alert_types = AlertTypeLoginStatus_def AlertTypeSyncType_def AlertTypeDevicePrepSync_def
  AlertTypeUnenrollmentUserRequest_def LoginStatusUser_def

definition StatusOK :: int where "StatusOK = 200"
definition StatusChunkedItemAccepted :: int where "StatusChunkedItemAccepted = 213"
definition StatusInvalidCredentials :: int where "StatusInvalidCredentials = 401"
definition StatusAuthenticationRequired :: int where "StatusAuthenticationRequired = 407"

lemmas status_codes = StatusOK_def StatusChunkedItemAccepted_def StatusInvalidCredentials_def
  StatusAuthenticationRequired_def

abbreviation Wire :: "int \<Rightarrow> string" where "Wire \<equiv> Itoa"

definition Success :: "int \<Rightarrow> bool" where
  "Success c = (200 \<le> c \<and> c < 300)"

definition ParseStatusCode :: "string \<Rightarrow> int result" where
  "ParseStatusCode s =
     (case Atoi s of (n, err) \<Rightarrow>
        if err \<noteq> None \<or> n < 100 \<or> n > 999 then Inl [Syncml_ErrSyntax] else Inr n)"

definition ParseAlertCode :: "string \<Rightarrow> int result" where
  "ParseAlertCode s =
     (case Atoi s of (n, err) \<Rightarrow>
        if err \<noteq> None \<or> n < 1000 \<or> n > 9999 then Inl [Syncml_ErrSyntax] else Inr n)"

definition KnownFormat :: "string \<Rightarrow> bool" where
  "KnownFormat f = (f \<in> {''chr'', ''int'', ''node'', ''bool'', ''b64'', ''null'', ''xml'',
     ''bin'', ''time'', ''date'', ''float''})"

definition FormatB64 :: string where "FormatB64 = ''b64''"
definition AuthBasicType :: string where "AuthBasicType = ''syncml:auth-basic''"
definition AuthMD5Type :: string where "AuthMD5Type = ''syncml:auth-md5''"

section \<open>Messages\<close>

record meta =
  m_Format :: string
  m_Type :: string
  m_Mark :: string
  m_Size :: int
  m_NextNonce :: string
  m_MaxMsgSize :: int
  m_MaxObjSize :: int

definition zero_meta :: meta where
  "zero_meta = \<lparr>m_Format = [], m_Type = [], m_Mark = [], m_Size = 0, m_NextNonce = [],
     m_MaxMsgSize = 0, m_MaxObjSize = 0\<rparr>"

record cred =
  cr_Meta :: meta
  cr_Data :: string

record chal =
  ch_Meta :: meta

record data =
  d_Value :: string
  d_XML :: string
  d_OriginalError :: string

definition data_value :: "string \<Rightarrow> data" where
  "data_value v = \<lparr>d_Value = v, d_XML = [], d_OriginalError = []\<rparr>"

text \<open>\<open>(*Data).Text\<close>; a nil receiver is the empty string.\<close>

definition data_Text :: "data option \<Rightarrow> string" where
  "data_Text d = (case d of None \<Rightarrow> []
     | Some x \<Rightarrow> if d_XML x \<noteq> [] then d_XML x else d_Value x)"

record item =
  it_Target :: string
  it_Source :: string
  it_Meta :: "meta option"
  it_Data :: "data option"
  it_MoreData :: bool

definition zero_item :: item where
  "zero_item = \<lparr>it_Target = [], it_Source = [], it_Meta = None, it_Data = None,
     it_MoreData = False\<rparr>"

definition item_LocURI :: "item \<Rightarrow> string" where
  "item_LocURI it = (if it_Target it \<noteq> [] then it_Target it else it_Source it)"

text \<open>
  \<open>Add\<close>, \<open>Replace\<close> and \<open>Delete\<close> share their fields; \<open>Get\<close> adds \<open>Lang\<close> and
  \<open>Exec\<close> adds \<open>Correlator\<close>.
\<close>

record cmd_fields =
  c_CmdID :: string
  c_NoResp :: bool
  c_Cred :: "cred option"
  c_Meta :: "meta option"
  c_Items :: "item list"

record get_fields = cmd_fields +
  g_Lang :: string

record exec_fields = cmd_fields +
  x_Correlator :: string

record alert =
  a_CmdID :: string
  a_NoResp :: bool
  a_Cred :: "cred option"
  a_Data :: string
  a_Correlator :: string
  a_Items :: "item list"

record group_fields =
  gp_CmdID :: string
  gp_NoResp :: bool
  gp_Meta :: "meta option"

record status =
  s_CmdID :: string
  s_MsgRef :: string
  s_CmdRef :: string
  s_Cmd :: string
  s_TargetRef :: "string list"
  s_SourceRef :: "string list"
  s_Cred :: "cred option"
  s_Chal :: "chal option"
  s_Data :: data
  s_Items :: "item list"

record results =
  r_CmdID :: string
  r_MsgRef :: string
  r_CmdRef :: string
  r_Cmd :: string
  r_Meta :: "meta option"
  r_TargetRef :: string
  r_SourceRef :: string
  r_Items :: "item list"

datatype command =
    Add cmd_fields
  | Replace cmd_fields
  | Delete cmd_fields
  | Get get_fields
  | Exec exec_fields
  | Alert alert
  | Atomic group_fields "command list"
  | Sequence group_fields "command list"
  | Status status
  | Results results

record location =
  l_LocURI :: string
  l_LocName :: string

record header =
  h_VerDTD :: string
  h_VerProto :: string
  h_SessionID :: string
  h_MsgID :: string
  h_Target :: location
  h_Source :: location
  h_RespURI :: string
  h_NoResp :: bool
  h_Cred :: "cred option"
  h_Meta :: "meta option"

record body =
  b_Commands :: "command list"
  b_Final :: bool
  b_MSFTNamespace :: bool

record message =
  msg_Namespace :: string
  msg_Header :: header
  msg_Body :: body

text \<open>Zero values, from which the code's composite literals start.\<close>

definition zero_cmd :: cmd_fields where
  "zero_cmd = \<lparr>c_CmdID = [], c_NoResp = False, c_Cred = None, c_Meta = None, c_Items = []\<rparr>"

definition zero_get :: get_fields where
  "zero_get = \<lparr>c_CmdID = [], c_NoResp = False, c_Cred = None, c_Meta = None, c_Items = [],
     g_Lang = []\<rparr>"

definition zero_exec :: exec_fields where
  "zero_exec = \<lparr>c_CmdID = [], c_NoResp = False, c_Cred = None, c_Meta = None, c_Items = [],
     x_Correlator = []\<rparr>"

definition zero_alert :: alert where
  "zero_alert = \<lparr>a_CmdID = [], a_NoResp = False, a_Cred = None, a_Data = [], a_Correlator = [],
     a_Items = []\<rparr>"

definition zero_group :: group_fields where
  "zero_group = \<lparr>gp_CmdID = [], gp_NoResp = False, gp_Meta = None\<rparr>"

definition zero_status :: status where
  "zero_status = \<lparr>s_CmdID = [], s_MsgRef = [], s_CmdRef = [], s_Cmd = [], s_TargetRef = [],
     s_SourceRef = [], s_Cred = None, s_Chal = None, s_Data = data_value [], s_Items = []\<rparr>"

definition zero_results :: results where
  "zero_results = \<lparr>r_CmdID = [], r_MsgRef = [], r_CmdRef = [], r_Cmd = [], r_Meta = None,
     r_TargetRef = [], r_SourceRef = [], r_Items = []\<rparr>"

definition zero_location :: location where
  "zero_location = \<lparr>l_LocURI = [], l_LocName = []\<rparr>"

definition zero_header :: header where
  "zero_header = \<lparr>h_VerDTD = [], h_VerProto = [], h_SessionID = [], h_MsgID = [],
     h_Target = zero_location, h_Source = zero_location, h_RespURI = [], h_NoResp = False,
     h_Cred = None, h_Meta = None\<rparr>"

definition zero_body :: body where
  "zero_body = \<lparr>b_Commands = [], b_Final = False, b_MSFTNamespace = False\<rparr>"

lemmas zero_defs = zero_meta_def zero_item_def zero_cmd_def zero_get_def zero_exec_def
  zero_alert_def zero_group_def zero_status_def zero_results_def zero_location_def
  zero_header_def zero_body_def

section \<open>Accessors\<close>

fun cmd_Name :: "command \<Rightarrow> string" where
  "cmd_Name (Add _) = CmdAdd"
| "cmd_Name (Replace _) = CmdReplace"
| "cmd_Name (Delete _) = CmdDelete"
| "cmd_Name (Get _) = CmdGet"
| "cmd_Name (Exec _) = CmdExec"
| "cmd_Name (Alert _) = CmdAlert"
| "cmd_Name (Atomic _ _) = CmdAtomic"
| "cmd_Name (Sequence _ _) = CmdSequence"
| "cmd_Name (Status _) = CmdStatus"
| "cmd_Name (Results _) = CmdResults"

fun cmd_ID :: "command \<Rightarrow> string" where
  "cmd_ID (Add c) = c_CmdID c"
| "cmd_ID (Replace c) = c_CmdID c"
| "cmd_ID (Delete c) = c_CmdID c"
| "cmd_ID (Get c) = c_CmdID c"
| "cmd_ID (Exec c) = c_CmdID c"
| "cmd_ID (Alert a) = a_CmdID a"
| "cmd_ID (Atomic g _) = gp_CmdID g"
| "cmd_ID (Sequence g _) = gp_CmdID g"
| "cmd_ID (Status s) = s_CmdID s"
| "cmd_ID (Results r) = r_CmdID r"

definition alert_Code :: "alert \<Rightarrow> int" where
  "alert_Code a = (case ParseAlertCode (a_Data a) of Inl _ \<Rightarrow> 0 | Inr c \<Rightarrow> c)"

definition status_Code :: "status \<Rightarrow> int" where
  "status_Code s = (case ParseStatusCode (d_Value (s_Data s)) of Inl _ \<Rightarrow> 0 | Inr c \<Rightarrow> c)"

definition body_Alerts :: "body \<Rightarrow> alert list" where
  "body_Alerts b = List.map_filter (\<lambda>c. case c of Alert a \<Rightarrow> Some a | _ \<Rightarrow> None) (b_Commands b)"

definition body_Statuses :: "body \<Rightarrow> status list" where
  "body_Statuses b = List.map_filter (\<lambda>c. case c of Status s \<Rightarrow> Some s | _ \<Rightarrow> None) (b_Commands b)"

definition body_HasAlert :: "body \<Rightarrow> int \<Rightarrow> bool" where
  "body_HasAlert b code = list_ex (\<lambda>a. alert_Code a = code) (body_Alerts b)"

text \<open>
  \<open>Body.Walk\<close>: the callback may stop the walk by returning false. The model threads the
  callback's accumulator and returns it with whether the walk went to the end.
\<close>

fun walk :: "command list \<Rightarrow> nat \<Rightarrow> (command \<Rightarrow> nat \<Rightarrow> 's \<Rightarrow> bool \<times> 's) \<Rightarrow> 's \<Rightarrow> bool \<times> 's" where
  "walk [] depth fn s = (True, s)"
| "walk (c # cs) depth fn s =
     (case fn c depth s of
        (False, s1) \<Rightarrow> (False, s1)
      | (True, s1) \<Rightarrow>
          (case (case c of
                   Atomic _ sub \<Rightarrow> walk sub (depth + 1) fn s1
                 | Sequence _ sub \<Rightarrow> walk sub (depth + 1) fn s1
                 | _ \<Rightarrow> (True, s1)) of
             (False, s2) \<Rightarrow> (False, s2)
           | (True, s2) \<Rightarrow> walk cs depth fn s2))"

text \<open>Every command of a list with those nested in it, in document order.\<close>

fun flatten_cmd :: "command \<Rightarrow> command list" where
  "flatten_cmd (Atomic g cs) = Atomic g cs # concat (map flatten_cmd cs)"
| "flatten_cmd (Sequence g cs) = Sequence g cs # concat (map flatten_cmd cs)"
| "flatten_cmd c = [c]"

abbreviation flatten_cmds :: "command list \<Rightarrow> command list" where
  "flatten_cmds cs \<equiv> concat (map flatten_cmd cs)"

section \<open>Facts\<close>

lemma ParseStatusCode_Wire [go_simps]:
  "100 \<le> c \<Longrightarrow> c \<le> 999 \<Longrightarrow> ParseStatusCode (Wire c) = Inr c"
  by (simp add: ParseStatusCode_def Atoi_Itoa in_int64_def)

lemma ParseAlertCode_Wire [go_simps]:
  "1000 \<le> c \<Longrightarrow> c \<le> 9999 \<Longrightarrow> ParseAlertCode (Wire c) = Inr c"
  by (simp add: ParseAlertCode_def Atoi_Itoa in_int64_def)

lemma cmd_in_flatten_cmd [simp]: "c \<in> set (flatten_cmd c)"
  by (cases c) auto

text \<open>A callback that never stops the walk sees every command once, in document order.\<close>

lemma walk_collects:
  "walk cs depth (\<lambda>c _ acc. (True, acc @ [c])) acc = (True, acc @ flatten_cmds cs)"
proof (induction cs depth "\<lambda>(c :: command) (_ :: nat) acc. (True, acc @ [c])" acc rule: walk.induct)
  case (1 depth s)
  then show ?case by simp
next
  case (2 c cs depth s)
  then show ?case by (cases c) auto
qed

end
