(* ===== verification/Syncml_Validate.thy ===== *)
theory Syncml_Validate
  imports Syncml_Message
begin

text \<open>
  The session rules of \<open>mdmprotocol/syncml/validate.go\<close>. The validator walks a decoded message
  and collects every broken rule with the path of the offending element; the text of each
  message is left out. \<open>msg_valid\<close> states the rules declaratively, and the validator is
  shown to accept exactly the messages it describes.
\<close>

section \<open>Addresses\<close>

fun check_segs :: "string list \<Rightarrow> unit result" where
  "check_segs [] = Inr ()"
| "check_segs (seg # segs) =
     (if seg = [] then Inl [Plain ''empty node name in LocURI'']
      else if seg = ''*'' then Inl [Plain ''node name cannot be only *'']
      else check_segs segs)"

definition CheckLocURI :: "string \<Rightarrow> unit result" where
  "CheckLocURI uri =
     (if uri = [] then Inl [Plain ''empty LocURI'']
      else if HasPrefix uri ''/'' then Inl [Plain ''LocURI cannot start with /'']
      else check_segs (Split CHR ''/'' (before CHR ''?'' uri)))"

definition locuri_ok :: "string \<Rightarrow> bool" where
  "locuri_ok uri = (CheckLocURI uri = Inr ())"

section \<open>The validator\<close>

type_synonym verror = "sentinel \<times> string"

record validator =
  v_errs :: "verror list"
  v_ids :: "string \<rightharpoonup> string"

definition v_fail :: "sentinel \<Rightarrow> string \<Rightarrow> validator \<Rightarrow> validator" where
  "v_fail rule path v = v\<lparr>v_errs := v_errs v @ [(rule, path)]\<rparr>"

text \<open>\<open>if bad then v.fail(rule, path)\<close>.\<close>

definition v_fail_if :: "bool \<Rightarrow> sentinel \<Rightarrow> string \<Rightarrow> validator \<Rightarrow> validator" where
  "v_fail_if bad rule path v = (if bad then v_fail rule path v else v)"

definition auth_type_ok :: "string \<Rightarrow> bool" where
  "auth_type_ok t = (t = AuthBasicType \<or> t = AuthMD5Type)"

definition v_cred :: "cred \<Rightarrow> string \<Rightarrow> validator \<Rightarrow> validator" where
  "v_cred c path v =
     v_fail_if (cr_Data c = []) Syncml_ErrAuth (path @ ''/Data'')
      (v_fail_if (\<not> auth_type_ok (m_Type (cr_Meta c))) Syncml_ErrAuth (path @ ''/Meta/Type'') v)"

definition v_meta :: "meta \<Rightarrow> string \<Rightarrow> validator \<Rightarrow> validator" where
  "v_meta m path v =
     v_fail_if (m_Format m \<noteq> [] \<and> \<not> KnownFormat (m_Format m)) ErrFormat (path @ ''/Format'') v"

text \<open>\<open>if x != nil { v.meta(x, path) }\<close>, and the same for a Cred.\<close>

definition v_opt :: "('a \<Rightarrow> string \<Rightarrow> validator \<Rightarrow> validator) \<Rightarrow> 'a option \<Rightarrow> string
    \<Rightarrow> validator \<Rightarrow> validator" where
  "v_opt f x path v = (case x of None \<Rightarrow> v | Some y \<Rightarrow> f y path v)"

definition v_header :: "header \<Rightarrow> string \<Rightarrow> validator \<Rightarrow> validator" where
  "v_header h ns v0 =
     (let v1 = v_fail_if (ns \<noteq> NamespaceSyncML12 \<and> ns \<noteq> NamespaceSyncML11)
                 ErrVersion ''SyncML'' v0;
          v2 = v_fail_if (h_VerDTD h \<noteq> VerDTD) ErrVersion ''SyncHdr/VerDTD'' v1;
          v3 = v_fail_if (h_VerProto h \<noteq> VerProto) ErrVersion ''SyncHdr/VerProto'' v2;
          v4 = v_fail_if (h_SessionID h = []) ErrSessionID ''SyncHdr/SessionID'' v3;
          v5 = v_fail_if (snd (Atoi (h_MsgID h)) \<noteq> None \<or> fst (Atoi (h_MsgID h)) < 1)
                 ErrMsgID ''SyncHdr/MsgID'' v4;
          v6 = v_fail_if (l_LocURI (h_Target h) = []) ErrRouting ''SyncHdr/Target/LocURI'' v5;
          v7 = v_fail_if (l_LocURI (h_Source h) = []) ErrRouting ''SyncHdr/Source/LocURI'' v6;
          v8 = v_opt v_cred (h_Cred h) ''SyncHdr/Cred'' v7
      in v_opt v_meta (h_Meta h) ''SyncHdr/Meta'' v8)"

definition cmd_path :: "command \<Rightarrow> string \<Rightarrow> string" where
  "cmd_path c path = path @ ''/'' @ cmd_Name c @ ''['' @ cmd_ID c @ '']''"

definition v_cmdID :: "command \<Rightarrow> string \<Rightarrow> validator \<Rightarrow> validator" where
  "v_cmdID c path v =
     (let id = cmd_ID c; p = cmd_path c path
      in if id = [] \<or> id = ''0'' then v_fail ErrCmdID p v
         else case v_ids v id of
             Some first \<Rightarrow> v_fail ErrDuplicateCmdID p v
           | None \<Rightarrow> v\<lparr>v_ids := (v_ids v)(id \<mapsto> p)\<rparr>)"

definition item_path :: "string \<Rightarrow> nat \<Rightarrow> string" where
  "item_path path i = path @ ''/Item['' @ Itoa (int i) @ '']''"

definition v_item :: "string \<Rightarrow> nat \<Rightarrow> item \<Rightarrow> validator \<Rightarrow> validator" where
  "v_item path i it v =
     (let ip = item_path path i; uri = item_LocURI it;
          v1 = v_fail_if (uri = [] \<or> \<not> locuri_ok uri) ErrLocURI ip v;
          v2 = v_opt v_meta (it_Meta it) (ip @ ''/Meta'') v1
      in v_fail_if (case it_Data it of None \<Rightarrow> False | Some d \<Rightarrow> d_Value d \<noteq> [] \<and> d_XML d \<noteq> [])
           ErrItems (ip @ ''/Data'') v2)"

fun v_each_item :: "(nat \<Rightarrow> item \<Rightarrow> validator \<Rightarrow> validator) \<Rightarrow> nat \<Rightarrow> item list
    \<Rightarrow> validator \<Rightarrow> validator" where
  "v_each_item f i [] v = v"
| "v_each_item f i (it # its) v = v_each_item f (Suc i) its (f i it v)"

definition v_items :: "item list \<Rightarrow> string \<Rightarrow> nat \<Rightarrow> nat \<Rightarrow> validator \<Rightarrow> validator" where
  "v_items its path minItems maxItems v =
     (let v1 = v_fail_if (length its < minItems) ErrItems path v;
          v2 = v_fail_if (0 < maxItems \<and> maxItems < length its) ErrItems path v1
      in v_each_item (v_item path) 0 its v2)"

text \<open>The Meta of each Item, for Alert and Status, whose Items carry no address rule.\<close>

definition v_item_metas :: "string \<Rightarrow> item list \<Rightarrow> validator \<Rightarrow> validator" where
  "v_item_metas path its v =
     v_each_item (\<lambda>i it. v_opt v_meta (it_Meta it) (item_path path i @ ''/Meta'')) 0 its v"

fun v_aar_items :: "(string \<Rightarrow> bool) \<Rightarrow> string \<Rightarrow> item list \<Rightarrow> validator \<Rightarrow> validator" where
  "v_aar_items added path [] v = v"
| "v_aar_items added path (it # its) v =
     v_aar_items added path its
       (v_fail_if (added (item_LocURI it)) ErrAtomicAddThenReplace path v)"

fun v_aar :: "(string \<Rightarrow> bool) \<Rightarrow> command list \<Rightarrow> string \<Rightarrow> validator \<Rightarrow> validator" where
  "v_aar added [] path v = v"
| "v_aar added (c # cs) path v =
     (case c of
        Add a \<Rightarrow> v_aar (\<lambda>u. added u \<or> u \<in> item_LocURI ` set (c_Items a)) cs path v
      | Replace r \<Rightarrow>
          v_aar added cs path
            (v_aar_items added (path @ ''/Replace['' @ c_CmdID r @ '']'') (c_Items r) v)
      | _ \<Rightarrow> v_aar added cs path v)"

definition v_atomicAddReplace :: "command list \<Rightarrow> string \<Rightarrow> validator \<Rightarrow> validator" where
  "v_atomicAddReplace cs path v = v_aar (\<lambda>_. False) cs path v"

definition status_cmd_known :: "string \<Rightarrow> bool" where
  "status_cmd_known n = (n \<in> {CmdSyncHdr, CmdAdd, CmdAlert, CmdAtomic, CmdDelete, CmdExec,
     CmdGet, CmdReplace, CmdResults, CmdSequence, CmdStatus})"

definition v_alert :: "alert \<Rightarrow> string \<Rightarrow> validator \<Rightarrow> validator" where
  "v_alert n p v =
     (let code = alert_Code n;
          v1 = v_fail_if ((case ParseAlertCode (a_Data n) of Inl _ \<Rightarrow> True | Inr c \<Rightarrow> \<not> alert_Known c))
                 ErrAlertCode (p @ ''/Data'') v;
          v2 = (if code = AlertClientEvent \<or> code = AlertGeneric
                then v_each_item (\<lambda>i it. v_fail_if
                         (case it_Meta it of None \<Rightarrow> True | Some m \<Rightarrow> m_Type m = [])
                         ErrItems (item_path p i @ ''/Meta/Type'')) 0 (a_Items n)
                       (v_fail_if (a_Items n = []) ErrItems p v1)
                else v1)
      in v_item_metas p (a_Items n) v2)"

definition v_status :: "status \<Rightarrow> string \<Rightarrow> validator \<Rightarrow> validator" where
  "v_status n p v =
     (let v1 = v_fail_if (s_MsgRef n = []) ErrStatusRef (p @ ''/MsgRef'') v;
          v2 = v_fail_if (s_CmdRef n = []) ErrStatusRef (p @ ''/CmdRef'') v1;
          v3 = v_fail_if (\<not> status_cmd_known (s_Cmd n)) ErrStatusRef (p @ ''/Cmd'') v2;
          v4 = v_fail_if (s_CmdRef n = ''0'' \<and> s_Cmd n \<noteq> CmdSyncHdr) ErrStatusRef (p @ ''/Cmd'') v3;
          v5 = v_fail_if (case ParseStatusCode (d_Value (s_Data n)) of Inl _ \<Rightarrow> True | Inr _ \<Rightarrow> False)
                 ErrStatusCode (p @ ''/Data'') v4;
          v6 = v_fail_if (case s_Chal n of None \<Rightarrow> False | Some c \<Rightarrow> \<not> auth_type_ok (m_Type (ch_Meta c)))
                 Syncml_ErrAuth (p @ ''/Chal/Meta/Type'') v5;
          v7 = v_opt v_cred (s_Cred n) (p @ ''/Cred'') v6
      in v_item_metas p (s_Items n) v7)"

definition v_results :: "results \<Rightarrow> string \<Rightarrow> validator \<Rightarrow> validator" where
  "v_results n p v =
     (let v1 = v_fail_if (r_CmdRef n = []) ErrStatusRef (p @ ''/CmdRef'') v;
          v2 = v_fail_if (r_MsgRef n \<noteq> []
                   \<and> (snd (Atoi (r_MsgRef n)) \<noteq> None \<or> fst (Atoi (r_MsgRef n)) < 1))
                 ErrStatusRef (p @ ''/MsgRef'') v1;
          v3 = v_items (r_Items n) p 1 0 v2
      in v_opt v_meta (r_Meta n) (p @ ''/Meta'') v3)"

fun v_command :: "command \<Rightarrow> string \<Rightarrow> bool \<Rightarrow> validator \<Rightarrow> validator"
and v_commands :: "command list \<Rightarrow> string \<Rightarrow> bool \<Rightarrow> validator \<Rightarrow> validator" where
  "v_command c path inAtomic v0 =
     (let p = cmd_path c path; v = v_cmdID c path v0
      in case c of
          Add n \<Rightarrow> v_opt v_meta (c_Meta n) (p @ ''/Meta'') (v_items (c_Items n) p 1 0 v)
        | Replace n \<Rightarrow> v_opt v_meta (c_Meta n) (p @ ''/Meta'') (v_items (c_Items n) p 1 0 v)
        | Delete n \<Rightarrow> v_items (c_Items n) p 1 0 v
        | Get n \<Rightarrow> v_fail_if inAtomic ErrAtomicGet p (v_items (c_Items n) p 1 0 v)
        | Exec n \<Rightarrow> v_items (c_Items n) p 1 1 v
        | Alert n \<Rightarrow> v_alert n p v
        | Atomic _ cs \<Rightarrow>
            v_commands cs p True
              (v_atomicAddReplace cs p
                (v_fail_if (cs = []) ErrItems p (v_fail_if inAtomic ErrAtomicNested p v)))
        | Sequence _ cs \<Rightarrow> v_commands cs p inAtomic (v_fail_if (cs = []) ErrItems p v)
        | Status n \<Rightarrow> v_status n p v
        | Results n \<Rightarrow> v_results n p v)"
| "v_commands [] path inAtomic v = v"
| "v_commands (c # cs) path inAtomic v = v_commands cs path inAtomic (v_command c path inAtomic v)"

declare v_command.simps [simp del]

definition v_body :: "body \<Rightarrow> validator \<Rightarrow> validator" where
  "v_body b v =
     v_commands (b_Commands b) ''SyncBody'' False
       (v_fail_if (b_Commands b = []) ErrEmptyBody ''SyncBody'' v)"

text \<open>\<open>Validate\<close> joins the collected errors: the empty list is Go's nil.\<close>

definition Validate :: "message \<Rightarrow> verror list" where
  "Validate m =
     v_errs (v_body (msg_Body m)
       (v_header (msg_Header m) (msg_Namespace m) \<lparr>v_errs = [], v_ids = Map.empty\<rparr>))"

section \<open>The rules, declaratively\<close>

definition meta_valid :: "meta \<Rightarrow> bool" where
  "meta_valid m = (m_Format m = [] \<or> KnownFormat (m_Format m))"

definition cred_valid :: "cred \<Rightarrow> bool" where
  "cred_valid c = (auth_type_ok (m_Type (cr_Meta c)) \<and> cr_Data c \<noteq> [])"

definition item_meta_valid :: "item \<Rightarrow> bool" where
  "item_meta_valid it = pred_option meta_valid (it_Meta it)"

definition item_valid :: "item \<Rightarrow> bool" where
  "item_valid it =
     (locuri_ok (item_LocURI it) \<and> item_meta_valid it
      \<and> pred_option (\<lambda>d. d_Value d = [] \<or> d_XML d = []) (it_Data it))"

definition header_valid :: "header \<Rightarrow> string \<Rightarrow> bool" where
  "header_valid h ns =
     (ns \<in> {NamespaceSyncML12, NamespaceSyncML11} \<and> h_VerDTD h = VerDTD \<and> h_VerProto h = VerProto
      \<and> h_SessionID h \<noteq> [] \<and> (\<exists>n \<ge> 1. Atoi (h_MsgID h) = (n, None))
      \<and> l_LocURI (h_Target h) \<noteq> [] \<and> l_LocURI (h_Source h) \<noteq> []
      \<and> pred_option cred_valid (h_Cred h) \<and> pred_option meta_valid (h_Meta h))"

text \<open>An Add of one node before a Replace of the same node.\<close>

definition add_before_replace :: "command \<Rightarrow> command \<Rightarrow> bool" where
  "add_before_replace c d =
     (\<exists>a r. c = Add a \<and> d = Replace r
        \<and> item_LocURI ` set (c_Items a) \<inter> item_LocURI ` set (c_Items r) \<noteq> {})"

definition alert_valid :: "alert \<Rightarrow> bool" where
  "alert_valid a =
     (alert_Known (alert_Code a) \<and> list_all item_meta_valid (a_Items a)
      \<and> (alert_Code a \<in> {AlertClientEvent, AlertGeneric} \<longrightarrow>
           a_Items a \<noteq> [] \<and> (\<forall>it \<in> set (a_Items a). \<exists>m. it_Meta it = Some m \<and> m_Type m \<noteq> [])))"

definition status_valid :: "status \<Rightarrow> bool" where
  "status_valid s =
     (s_MsgRef s \<noteq> [] \<and> s_CmdRef s \<noteq> [] \<and> status_cmd_known (s_Cmd s)
      \<and> (s_CmdRef s = ''0'' \<longrightarrow> s_Cmd s = CmdSyncHdr)
      \<and> (\<exists>c. ParseStatusCode (d_Value (s_Data s)) = Inr c)
      \<and> pred_option (\<lambda>c. auth_type_ok (m_Type (ch_Meta c))) (s_Chal s)
      \<and> pred_option cred_valid (s_Cred s) \<and> list_all item_meta_valid (s_Items s))"

definition results_valid :: "results \<Rightarrow> bool" where
  "results_valid r =
     (r_CmdRef r \<noteq> [] \<and> (r_MsgRef r = [] \<or> (\<exists>n \<ge> 1. Atoi (r_MsgRef r) = (n, None)))
      \<and> r_Items r \<noteq> [] \<and> list_all item_valid (r_Items r) \<and> pred_option meta_valid (r_Meta r))"

fun cmd_valid :: "bool \<Rightarrow> command \<Rightarrow> bool" where
  "cmd_valid a (Add n) =
     (c_Items n \<noteq> [] \<and> list_all item_valid (c_Items n) \<and> pred_option meta_valid (c_Meta n))"
| "cmd_valid a (Replace n) =
     (c_Items n \<noteq> [] \<and> list_all item_valid (c_Items n) \<and> pred_option meta_valid (c_Meta n))"
| "cmd_valid a (Delete n) = (c_Items n \<noteq> [] \<and> list_all item_valid (c_Items n))"
| "cmd_valid a (Get n) = (\<not> a \<and> c_Items n \<noteq> [] \<and> list_all item_valid (c_Items n))"
| "cmd_valid a (Exec n) = (length (c_Items n) = 1 \<and> list_all item_valid (c_Items n))"
| "cmd_valid a (Alert n) = alert_valid n"
| "cmd_valid a (Atomic _ cs) =
     (\<not> a \<and> cs \<noteq> [] \<and> sorted_wrt (\<lambda>c d. \<not> add_before_replace c d) cs
      \<and> (\<forall>c \<in> set cs. cmd_valid True c))"
| "cmd_valid a (Sequence _ cs) = (cs \<noteq> [] \<and> (\<forall>c \<in> set cs. cmd_valid a c))"
| "cmd_valid a (Status n) = status_valid n"
| "cmd_valid a (Results n) = results_valid n"

definition ids_ok :: "string set \<Rightarrow> string list \<Rightarrow> bool" where
  "ids_ok D ids = (distinct ids \<and> set ids \<inter> D = {} \<and> [] \<notin> set ids \<and> ''0'' \<notin> set ids)"

definition msg_valid :: "message \<Rightarrow> bool" where
  "msg_valid m =
     (header_valid (msg_Header m) (msg_Namespace m) \<and> b_Commands (msg_Body m) \<noteq> []
      \<and> (\<forall>c \<in> set (b_Commands (msg_Body m)). cmd_valid False c)
      \<and> ids_ok {} (map cmd_ID (flatten_cmds (b_Commands (msg_Body m)))))"

section \<open>Each rule adds an error exactly when it is broken\<close>

lemma v_ids_fail [simp]: "v_ids (v_fail r p v) = v_ids v"
  by (simp add: v_fail_def)

lemma v_ids_fail_if [simp]: "v_ids (v_fail_if b r p v) = v_ids v"
  by (simp add: v_fail_if_def)

lemma v_errs_fail [simp]: "v_errs (v_fail r p v) \<noteq> []"
  by (simp add: v_fail_def)

lemma v_errs_fail_if [simp]: "v_errs (v_fail_if b r p v) = [] \<longleftrightarrow> \<not> b \<and> v_errs v = []"
  by (auto simp: v_fail_if_def)

lemma v_cred_simps [simp]:
  "v_errs (v_cred c p v) = [] \<longleftrightarrow> cred_valid c \<and> v_errs v = []"
  "v_ids (v_cred c p v) = v_ids v"
  by (auto simp: v_cred_def cred_valid_def)

lemma v_meta_simps [simp]:
  "v_errs (v_meta m p v) = [] \<longleftrightarrow> meta_valid m \<and> v_errs v = []"
  "v_ids (v_meta m p v) = v_ids v"
  by (auto simp: v_meta_def meta_valid_def)

lemma v_opt_meta_simps [simp]:
  "v_errs (v_opt v_meta m p v) = [] \<longleftrightarrow> pred_option meta_valid m \<and> v_errs v = []"
  "v_ids (v_opt v_meta m p v) = v_ids v"
  by (auto simp: v_opt_def split: option.splits)

lemma v_opt_cred_simps [simp]:
  "v_errs (v_opt v_cred m p v) = [] \<longleftrightarrow> pred_option cred_valid m \<and> v_errs v = []"
  "v_ids (v_opt v_cred m p v) = v_ids v"
  by (auto simp: v_opt_def split: option.splits)

lemma v_header_simps [simp]:
  "v_errs (v_header h ns v) = [] \<longleftrightarrow> header_valid h ns \<and> v_errs v = []"
  "v_ids (v_header h ns v) = v_ids v"
  by (auto simp: v_header_def header_valid_def Let_def prod_eq_iff)

lemma v_each_item_simps:
  assumes "\<And>i it v. v_errs (f i it v) = [] \<longleftrightarrow> P it \<and> v_errs v = []"
    and "\<And>i it v. v_ids (f i it v) = v_ids v"
  shows "v_errs (v_each_item f i its v) = [] \<longleftrightarrow> list_all P its \<and> v_errs v = []"
    and "v_ids (v_each_item f i its v) = v_ids v"
  by (induction its arbitrary: i v) (auto simp: assms)

lemma v_item_simps [simp]:
  "v_errs (v_item p i it v) = [] \<longleftrightarrow> item_valid it \<and> v_errs v = []"
  "v_ids (v_item p i it v) = v_ids v"
  by (auto simp: v_item_def item_valid_def item_meta_valid_def Let_def locuri_ok_def CheckLocURI_def
      split: option.splits)

lemma v_items_simps [simp]:
  "v_errs (v_items its p lo hi v) = [] \<longleftrightarrow>
     lo \<le> length its \<and> (0 < hi \<longrightarrow> length its \<le> hi) \<and> list_all item_valid its \<and> v_errs v = []"
  "v_ids (v_items its p lo hi v) = v_ids v"
  by (auto simp: v_items_def Let_def v_each_item_simps [of "v_item p" item_valid])

lemma v_item_metas_simps [simp]:
  "v_errs (v_item_metas p its v) = [] \<longleftrightarrow> list_all item_meta_valid its \<and> v_errs v = []"
  "v_ids (v_item_metas p its v) = v_ids v"
  unfolding v_item_metas_def
  by (rule v_each_item_simps; simp add: item_meta_valid_def)+

lemma meta_type_missing:
  "(case it_Meta it of None \<Rightarrow> True | Some m \<Rightarrow> m_Type m = [])
     \<longleftrightarrow> \<not> (\<exists>m. it_Meta it = Some m \<and> m_Type m \<noteq> [])"
  by (cases "it_Meta it") auto

lemma v_each_meta_type_simps [simp]:
  "v_errs (v_each_item (\<lambda>i it. v_fail_if
        (case it_Meta it of None \<Rightarrow> True | Some m \<Rightarrow> m_Type m = []) r (q i)) k its v) = []
     \<longleftrightarrow> (\<forall>it \<in> set its. \<exists>m. it_Meta it = Some m \<and> m_Type m \<noteq> []) \<and> v_errs v = []"
  "v_ids (v_each_item (\<lambda>i it. v_fail_if
        (case it_Meta it of None \<Rightarrow> True | Some m \<Rightarrow> m_Type m = []) r (q i)) k its v) = v_ids v"
  by (induction its arbitrary: k v) (auto simp: meta_type_missing)

lemma alert_Known_0 [simp]: "\<not> alert_Known 0"
  by (simp add: alert_Known_def alert_codes)

lemma alert_known_code:
  "(case ParseAlertCode (a_Data a) of Inl _ \<Rightarrow> True | Inr c \<Rightarrow> \<not> alert_Known c)
     \<longleftrightarrow> \<not> alert_Known (alert_Code a)"
  by (cases "ParseAlertCode (a_Data a)") (simp_all add: alert_Code_def)

lemma v_alert_simps [simp]:
  "v_errs (v_alert a p v) = [] \<longleftrightarrow> alert_valid a \<and> v_errs v = []"
  "v_ids (v_alert a p v) = v_ids v"
  by (auto simp: v_alert_def Let_def alert_known_code alert_valid_def)

lemma v_status_simps [simp]:
  "v_errs (v_status s p v) = [] \<longleftrightarrow> status_valid s \<and> v_errs v = []"
  "v_ids (v_status s p v) = v_ids v"
  by (auto simp: v_status_def status_valid_def Let_def split: sum.splits option.splits)

lemma v_results_simps [simp]:
  "v_errs (v_results r p v) = [] \<longleftrightarrow> results_valid r \<and> v_errs v = []"
  "v_ids (v_results r p v) = v_ids v"
  by (auto simp: v_results_def results_valid_def Let_def prod_eq_iff Suc_le_eq)

lemma v_aar_items_simps [simp]:
  "v_errs (v_aar_items added p its v) = [] \<longleftrightarrow>
     (\<forall>it \<in> set its. \<not> added (item_LocURI it)) \<and> v_errs v = []"
  "v_ids (v_aar_items added p its v) = v_ids v"
  by (induction its arbitrary: v) auto

lemma v_aar_simps:
  "v_errs (v_aar added cs p v) = [] \<longleftrightarrow>
     sorted_wrt (\<lambda>c d. \<not> add_before_replace c d) cs
     \<and> (\<forall>r. Replace r \<in> set cs \<longrightarrow> (\<forall>it \<in> set (c_Items r). \<not> added (item_LocURI it)))
     \<and> v_errs v = []"
  "v_ids (v_aar added cs p v) = v_ids v"
proof (induction cs arbitrary: added v)
  case Nil
  { case 1 then show ?case by simp }
  { case 2 then show ?case by simp }
next
  case (Cons c cs)
  { case 1 show ?case
      by (cases c) (auto simp: Cons.IH add_before_replace_def disjoint_iff image_iff) }
  { case 2 show ?case by (cases c) (auto simp: Cons.IH) }
qed

lemma v_atomicAddReplace_simps [simp]:
  "v_errs (v_atomicAddReplace cs p v) = [] \<longleftrightarrow>
     sorted_wrt (\<lambda>c d. \<not> add_before_replace c d) cs \<and> v_errs v = []"
  "v_ids (v_atomicAddReplace cs p v) = v_ids v"
  by (auto simp: v_atomicAddReplace_def v_aar_simps)

section \<open>Command identifiers\<close>

lemma ids_ok_append:
  "ids_ok D (xs @ ys) \<longleftrightarrow> ids_ok D xs \<and> ids_ok (D \<union> set xs) ys"
  by (auto simp: ids_ok_def)

lemma ids_ok_Cons:
  "ids_ok D (x # xs) \<longleftrightarrow> x \<notin> D \<and> x \<noteq> [] \<and> x \<noteq> ''0'' \<and> ids_ok (insert x D) xs"
  by (auto simp: ids_ok_def)

lemma ids_ok_Nil [simp]: "ids_ok D []"
  by (simp add: ids_ok_def)

lemma v_cmdID_errs [simp]:
  "v_errs (v_cmdID c p v) = [] \<longleftrightarrow> ids_ok (dom (v_ids v)) [cmd_ID c] \<and> v_errs v = []"
  by (auto simp: v_cmdID_def Let_def ids_ok_def dom_def split: option.splits)

lemma v_cmdID_ids:
  "v_errs (v_cmdID c p v) = [] \<Longrightarrow> dom (v_ids (v_cmdID c p v)) = insert (cmd_ID c) (dom (v_ids v))"
  by (auto simp: v_cmdID_def Let_def ids_ok_def split: option.splits if_splits)

text \<open>
  A command contributes no error exactly when it is valid and its identifiers, with those
  nested in it, are new; the validator then remembers them.
\<close>

abbreviation ids_of :: "command \<Rightarrow> string list" where
  "ids_of c \<equiv> map cmd_ID (flatten_cmd c)"

abbreviation ids_of_all :: "command list \<Rightarrow> string list" where
  "ids_of_all cs \<equiv> map cmd_ID (flatten_cmds cs)"

lemma leaf_correct:
  assumes "v_errs w = [] \<longleftrightarrow> P \<and> v_errs (v_cmdID c p v) = []" "v_ids w = v_ids (v_cmdID c p v)"
    and "flatten_cmd c = [c]"
  shows "(v_errs w = [] \<longleftrightarrow> P \<and> ids_ok (dom (v_ids v)) (ids_of c) \<and> v_errs v = [])
    \<and> (v_errs w = [] \<longrightarrow> dom (v_ids w) = dom (v_ids v) \<union> set (ids_of c))"
  using v_cmdID_errs [of c p v] v_cmdID_ids [of c p v] by (auto simp: assms)

lemma group_correct:
  assumes "v_errs u = [] \<longleftrightarrow> P \<and> v_errs (v_cmdID c p v) = []" "v_ids u = v_ids (v_cmdID c p v)"
    and "flatten_cmd c = c # flatten_cmds cs"
    and "(v_errs w = [] \<longleftrightarrow> Q \<and> ids_ok (dom (v_ids u)) (ids_of_all cs) \<and> v_errs u = [])
      \<and> (v_errs w = [] \<longrightarrow> dom (v_ids w) = dom (v_ids u) \<union> set (ids_of_all cs))"
  shows "(v_errs w = [] \<longleftrightarrow> (P \<and> Q) \<and> ids_ok (dom (v_ids v)) (ids_of c) \<and> v_errs v = [])
    \<and> (v_errs w = [] \<longrightarrow> dom (v_ids w) = dom (v_ids v) \<union> set (ids_of c))"
proof (cases "v_errs (v_cmdID c p v) = []")
  case True
  then have "ids_ok (dom (v_ids v)) [cmd_ID c]" "v_errs v = []"
    by simp_all
  moreover have "dom (v_ids u) = insert (cmd_ID c) (dom (v_ids v))"
    using True by (simp add: assms(2) v_cmdID_ids)
  ultimately show ?thesis
    using assms True by (simp add: ids_ok_Cons) blast
next
  case False
  then show ?thesis
    using assms by (auto simp: ids_ok_Cons)
qed

lemma v_command_correct:
  "(v_errs (v_command c p a v) = [] \<longleftrightarrow>
      cmd_valid a c \<and> ids_ok (dom (v_ids v)) (ids_of c) \<and> v_errs v = [])
   \<and> (v_errs (v_command c p a v) = [] \<longrightarrow>
      dom (v_ids (v_command c p a v)) = dom (v_ids v) \<union> set (ids_of c))"
  and v_commands_correct:
  "(v_errs (v_commands cs p a v) = [] \<longleftrightarrow>
      (\<forall>c \<in> set cs. cmd_valid a c) \<and> ids_ok (dom (v_ids v)) (ids_of_all cs) \<and> v_errs v = [])
   \<and> (v_errs (v_commands cs p a v) = [] \<longrightarrow>
      dom (v_ids (v_commands cs p a v)) = dom (v_ids v) \<union> set (ids_of_all cs))"
proof (induction c p a v and cs p a v rule: v_command_v_commands.induct)
  case (1 c p a v)
  note leaf = leaf_correct [of "v_command c p a v" "cmd_valid a c" c p v]
  show ?case
  proof (cases c)
    case (Atomic g cs)
    note IH = 1(1) [OF refl refl Atomic]
    note group = group_correct [of _ "\<not> a \<and> cs \<noteq> [] \<and> sorted_wrt (\<lambda>c d. \<not> add_before_replace c d) cs"
        c p v, OF _ _ _ IH]
    have "cmd_valid a c \<longleftrightarrow> (\<not> a \<and> cs \<noteq> [] \<and> sorted_wrt (\<lambda>c d. \<not> add_before_replace c d) cs)
        \<and> (\<forall>c \<in> set cs. cmd_valid True c)"
      by (auto simp: Atomic)
    moreover have "v_command c p a v = v_commands cs (cmd_path c p) True
        (v_atomicAddReplace cs (cmd_path c p) (v_fail_if (cs = []) ErrItems (cmd_path c p)
          (v_fail_if a ErrAtomicNested (cmd_path c p) (v_cmdID c p v))))"
      by (subst v_command.simps) (simp add: Atomic Let_def)
    ultimately show ?thesis
      by (simp only:) (rule group; simp add: Atomic conj_ac)
  next
    case (Sequence g cs)
    note IH = 1(2) [OF refl refl Sequence]
    have "cmd_valid a c \<longleftrightarrow> cs \<noteq> [] \<and> (\<forall>c \<in> set cs. cmd_valid a c)"
      by (auto simp: Sequence)
    moreover have "v_command c p a v = v_commands cs (cmd_path c p) a
        (v_fail_if (cs = []) ErrItems (cmd_path c p) (v_cmdID c p v))"
      by (subst v_command.simps) (simp add: Sequence Let_def)
    ultimately show ?thesis
      by (simp only:) (rule group_correct [of _ "cs \<noteq> []" c p v, OF _ _ _ IH]; simp add: Sequence)
  next
    case (Exec n)
    show ?thesis
      by (rule leaf) (auto simp: Exec v_command.simps Let_def)
  qed (rule leaf; auto simp: v_command.simps Let_def Suc_le_eq)+
next
  case (2 p a v)
  then show ?case by simp
next
  case (3 c cs p a v)
  let ?w = "v_command c p a v"
  show ?case
  proof (cases "v_errs ?w = []")
    case True
    moreover from True 3(1) have "dom (v_ids ?w) = dom (v_ids v) \<union> set (ids_of c)"
      by blast
    ultimately show ?thesis
      using 3 by (simp add: ids_ok_append Un_assoc image_Un)
  next
    case False
    then have "v_errs (v_commands cs p a ?w) \<noteq> []"
      using 3(2) by blast
    then show ?thesis
      using 3(1) False by (auto simp: ids_ok_append)
  qed
qed

lemma Validate_correct: "Validate m = [] \<longleftrightarrow> msg_valid m"
  by (auto simp: Validate_def v_body_def msg_valid_def v_commands_correct)

text \<open>
  A command that is valid inside an Atomic contains no Get and no Atomic, at any depth.
\<close>

lemma cmd_valid_inside_atomic:
  "cmd_valid True c \<Longrightarrow> d \<in> set (flatten_cmd c) \<Longrightarrow> (\<forall>g. d \<noteq> Get g) \<and> (\<forall>g cs. d \<noteq> Atomic g cs)"
proof (induction True c rule: cmd_valid.induct)
  case (8 g cs)
  then show ?case by auto
qed auto

lemma locuri_ok_iff:
  "locuri_ok uri \<longleftrightarrow> uri \<noteq> [] \<and> (\<forall>seg \<in> set (Split CHR ''/'' (before CHR ''?'' uri)). seg \<noteq> [] \<and> seg \<noteq> ''*'')"
proof -
  have "check_segs segs = Inr () \<longleftrightarrow> (\<forall>seg \<in> set segs. seg \<noteq> [] \<and> seg \<noteq> ''*'')" for segs
    by (induction segs rule: check_segs.induct) auto
  then show ?thesis
    by (cases uri) (auto simp: locuri_ok_def CheckLocURI_def before_def)
qed

lemma cmd_valid_nested:
  "cmd_valid a c \<Longrightarrow> d \<in> set (flatten_cmd c) \<Longrightarrow> \<exists>b. cmd_valid b d"
proof (induction a c rule: cmd_valid.induct)
  case (7 a g cs)
  then show ?case by auto
next
  case (8 a g cs)
  then show ?case by auto
qed auto

section \<open>Properties\<close>


text \<open>
  C18. In a message the validator accepts, every command identifier, those of commands nested in
  an Atomic or a Sequence at any depth included, is distinct and none is empty or 0, and no
  Atomic of it contains a Get or another Atomic at any depth.
\<close>

theorem Validate_structure:
  assumes "Validate m = []"
  shows "ids_ok {} (ids_of_all (b_Commands (msg_Body m)))
    \<and> (\<forall>g cs d. Atomic g cs \<in> set (flatten_cmds (b_Commands (msg_Body m))) \<and> d \<in> set (flatten_cmds cs)
        \<longrightarrow> cmd_Name d \<noteq> CmdGet \<and> cmd_Name d \<noteq> CmdAtomic)"
proof -
  have "cmd_Name d \<noteq> CmdGet \<and> cmd_Name d \<noteq> CmdAtomic"
    if atomic: "Atomic g cs \<in> set (flatten_cmds (b_Commands (msg_Body m)))"
      and member: "d \<in> set (flatten_cmds cs)" for g cs d
  proof -
    obtain c where "c \<in> set (b_Commands (msg_Body m))" "Atomic g cs \<in> set (flatten_cmd c)"
      using atomic by auto
    then obtain b where "cmd_valid b (Atomic g cs)"
      using assms cmd_valid_nested unfolding Validate_correct msg_valid_def by blast
    then show ?thesis
      using member cmd_valid_inside_atomic by (cases d) (fastforce simp: cmd_names)+
  qed
  then show ?thesis
    using assms unfolding Validate_correct msg_valid_def by blast
qed

text \<open>A server message with an Atomic of two commands.\<close>

definition sample_item :: item where
  "sample_item = zero_item\<lparr>it_Target := ''./Device/Vendor/MSFT/Policy/A'', it_Data := Some (data_value ''1'')\<rparr>"

definition sample_msg :: message where
  "sample_msg = \<lparr>msg_Namespace = NamespaceSyncML12,
     msg_Header = zero_header\<lparr>h_VerDTD := VerDTD, h_VerProto := VerProto, h_SessionID := ''7'',
       h_MsgID := ''1'', h_Target := zero_location\<lparr>l_LocURI := ''d''\<rparr>,
       h_Source := zero_location\<lparr>l_LocURI := ''s''\<rparr>\<rparr>,
     msg_Body = zero_body\<lparr>b_Commands :=
       [Atomic (zero_group\<lparr>gp_CmdID := ''2''\<rparr>)
          [Replace (zero_cmd\<lparr>c_CmdID := ''3'', c_Items := [sample_item]\<rparr>),
           Delete (zero_cmd\<lparr>c_CmdID := ''4'', c_Items := [sample_item]\<rparr>)],
        Get (zero_get\<lparr>c_CmdID := ''5'', c_Items := [sample_item]\<rparr>)]\<rparr>\<rparr>"

lemma sample_msg_valid: "Validate sample_msg = []"
proof -
  have "Atoi ''1'' = (1, None)" "locuri_ok ''./Device/Vendor/MSFT/Policy/A''"
    by (simp_all add: go_eval locuri_ok_iff before_def)
  then show ?thesis
    by (simp add: Validate_correct msg_valid_def sample_msg_def sample_item_def zero_defs
        header_valid_def item_valid_def item_meta_valid_def item_LocURI_def data_value_def
        add_before_replace_def ids_ok_def)
qed

theorem Validate_structure_witness:
  "Validate sample_msg = [] \<and> ids_ok {} (ids_of_all (b_Commands (msg_Body sample_msg)))"
  using Validate_structure [OF sample_msg_valid] sample_msg_valid by blast

end
