(* ===== verification/Syncml_LargeObject.thy ===== *)
theory Syncml_LargeObject
  imports Syncml_Message
begin

text \<open>
  Large objects, \<open>mdmprotocol/syncml/largeobject.go\<close>: an Item too large for one message is
  split into chunks on rune boundaries, and an assembler puts the chunks of a client's object
  together again. The two are shown to be inverse, the chunks to respect the limit, and the
  assembler's buffer to stay within its bound whatever the client sends.
\<close>

definition DefaultMaxSize :: int where
  "DefaultMaxSize = 8 * 2 ^ 20"

section \<open>SplitItem\<close>

text \<open>The loop \<open>for n > 0 && !utf8.RuneStart(full[n]) { n-- }\<close>.\<close>

fun rune_cut :: "string \<Rightarrow> nat \<Rightarrow> nat" where
  "rune_cut full 0 = 0"
| "rune_cut full (Suc n) = (if RuneStart (full ! Suc n) then Suc n else rune_cut full n)"

definition chunk_len :: "nat \<Rightarrow> string \<Rightarrow> nat" where
  "chunk_len maxDataBytes full =
     (if length full \<le> maxDataBytes then length full else rune_cut full maxDataBytes)"

definition mk_chunk :: "item \<Rightarrow> data \<Rightarrow> bool \<Rightarrow> string \<Rightarrow> bool \<Rightarrow> item" where
  "mk_chunk it d first part moreData =
     (let meta = (if first
                  then Some ((case it_Meta it of None \<Rightarrow> zero_meta | Some m \<Rightarrow> m)
                             \<lparr>m_Size := int (length (d_Value d))\<rparr>)
                  else it_Meta it)
      in it\<lparr>it_Meta := meta, it_MoreData := moreData,
            it_Data := Some \<lparr>d_Value = part, d_XML = [], d_OriginalError = d_OriginalError d\<rparr>\<rparr>)"

lemma rune_cut_le: "rune_cut full n \<le> n"
  by (induction n) auto

function split_loop :: "item \<Rightarrow> data \<Rightarrow> nat \<Rightarrow> bool \<Rightarrow> string \<Rightarrow> item list result" where
  "split_loop it d maxDataBytes first full =
     (if full = [] then Inr []
      else let n = chunk_len maxDataBytes full; rest = drop n full
           in if n = 0 then Inl [Syncml_ErrChunk]
              else rbind (split_loop it d maxDataBytes False rest)
                     (\<lambda>out. Inr (mk_chunk it d first (take n full) (rest \<noteq> []) # out)))"
  by pat_completeness auto
termination
  by (relation "measure (\<lambda>(_, _, _, _, full). length full)") auto

declare split_loop.simps [simp del]

definition SplitItem :: "item \<Rightarrow> int \<Rightarrow> item list result" where
  "SplitItem it maxDataBytes =
     (if maxDataBytes < 1 then Inl [Syncml_ErrChunk]
      else case it_Data it of
          None \<Rightarrow> Inr [it]
        | Some d \<Rightarrow>
            if d_XML d \<noteq> [] \<or> int (length (d_Value d)) \<le> maxDataBytes then Inr [it]
            else if it_MoreData it then Inl [Syncml_ErrChunk]
            else split_loop it d (nat maxDataBytes) True (d_Value d))"

section \<open>The assembler\<close>

record assembler =
  as_MaxSize :: int
  as_locURI :: string
  as_pending :: bool
  as_buf :: string
  as_first :: item
  as_size :: int

definition new_assembler :: "int \<Rightarrow> assembler" where
  "new_assembler maxSize = \<lparr>as_MaxSize = maxSize, as_locURI = [], as_pending = False, as_buf = [],
     as_first = zero_item, as_size = 0\<rparr>"

definition assembler_LocURI :: "assembler \<Rightarrow> string" where
  "assembler_LocURI a = (if \<not> as_pending a then [] else as_locURI a)"

definition assembler_Reset :: "assembler \<Rightarrow> assembler" where
  "assembler_Reset a = new_assembler (as_MaxSize a)"

definition as_limit :: "assembler \<Rightarrow> int" where
  "as_limit a = (if as_MaxSize a \<le> 0 then DefaultMaxSize else as_MaxSize a)"

text \<open>
  The first part of \<open>Add\<close>, up to the point where the chunk's bytes are appended. \<open>Inl\<close> is a
  return, with the final state and the results; \<open>Inr\<close> continues with the state. A result
  \<open>Inr (Some it)\<close> is \<open>(it, true, nil)\<close> and \<open>Inr None\<close> is \<open>(Item{}, false, nil)\<close>.
\<close>

type_synonym add_result = "item option result"

definition assembler_open :: "assembler \<Rightarrow> item \<Rightarrow> (assembler \<times> add_result) + assembler" where
  "assembler_open a it =
     (if \<not> as_pending a then
        if \<not> it_MoreData it then Inl (a, Inr (Some it))
        else if it_Data it = None then Inl (a, Inl [Syncml_ErrChunk])
        else let b = a\<lparr>as_pending := True, as_locURI := item_LocURI it, as_first := it, as_buf := []\<rparr>
             in case it_Meta it of
                  None \<Rightarrow> Inr b
                | Some m \<Rightarrow>
                    if as_limit a < m_Size m then Inl (assembler_Reset b, Inl [Syncml_ErrChunk])
                    else Inr (b\<lparr>as_size := m_Size m\<rparr>)
      else if item_LocURI it \<noteq> as_locURI a then Inl (assembler_Reset a, Inl [Syncml_ErrChunk])
      else Inr a)"

definition assembled :: "assembler \<Rightarrow> item" where
  "assembled a = (as_first a)\<lparr>it_MoreData := False,
     it_Data := Some \<lparr>d_Value = as_buf a, d_XML = [],
        d_OriginalError = d_OriginalError (the (it_Data (as_first a)))\<rparr>\<rparr>"

text \<open>The rest of \<open>Add\<close>: append, check the limit, and complete the object.\<close>

definition assembler_append :: "assembler \<Rightarrow> item \<Rightarrow> assembler \<times> add_result" where
  "assembler_append a it =
     (let fail = (assembler_Reset a, Inl [Syncml_ErrChunk])
      in if (case it_Data it of None \<Rightarrow> False | Some d \<Rightarrow> d_XML d \<noteq> []) then fail
         else let b = (case it_Data it of None \<Rightarrow> a | Some d \<Rightarrow> a\<lparr>as_buf := as_buf a @ d_Value d\<rparr>)
              in if as_limit a < int (length (as_buf b)) then fail
                 else if it_MoreData it then (b, Inr None)
                 else if 0 < as_size b \<and> int (length (as_buf b)) \<noteq> as_size b then fail
                 else (assembler_Reset b, Inr (Some (assembled b))))"

definition assembler_Add :: "assembler \<Rightarrow> item \<Rightarrow> assembler \<times> add_result" where
  "assembler_Add a it =
     (case assembler_open a it of Inl r \<Rightarrow> r | Inr b \<Rightarrow> assembler_append b it)"

text \<open>A client's chunks through the assembler: the results of the calls in order.\<close>

fun feed :: "assembler \<Rightarrow> item list \<Rightarrow> assembler \<times> add_result list" where
  "feed a [] = (a, [])"
| "feed a (it # its) =
     (case assembler_Add a it of (b, r) \<Rightarrow> (case feed b its of (c, rs) \<Rightarrow> (c, r # rs)))"

section \<open>Splitting\<close>

lemma rune_cut_start: "0 < rune_cut full n \<Longrightarrow> RuneStart (full ! rune_cut full n)"
  by (induction n) auto

lemma chunk_len_le: "chunk_len n full \<le> n" "chunk_len n full \<le> length full"
  using rune_cut_le [of full n] by (auto simp: chunk_len_def)

text \<open>What a list of chunks of an Item carries.\<close>

definition chunk_bytes :: "item \<Rightarrow> string" where
  "chunk_bytes c = (case it_Data c of None \<Rightarrow> [] | Some d \<Rightarrow> d_Value d)"

lemma mk_chunk_fields [simp]:
  "chunk_bytes (mk_chunk it d first part moreData) = part"
  "it_MoreData (mk_chunk it d first part moreData) = moreData"
  "item_LocURI (mk_chunk it d first part moreData) = item_LocURI it"
  "it_Data (mk_chunk it d first part moreData) =
     Some \<lparr>d_Value = part, d_XML = [], d_OriginalError = d_OriginalError d\<rparr>"
  by (simp_all add: mk_chunk_def chunk_bytes_def item_LocURI_def Let_def)

lemma split_loop_Cons:
  assumes "split_loop it d n first full = Inr cs" "full \<noteq> []"
  obtains k out where "0 < k" "k \<le> n" "k \<le> length full"
    "cs = mk_chunk it d first (take k full) (drop k full \<noteq> []) # out"
    "split_loop it d n False (drop k full) = Inr out"
    "k < length full \<longrightarrow> RuneStart (full ! k)"
proof -
  let ?k = "chunk_len n full"
  have "0 < ?k"
    using assms by (subst (asm) split_loop.simps) (auto simp: Let_def split: if_splits)
  moreover have "?k < length full \<longrightarrow> RuneStart (full ! ?k)"
    using rune_cut_start [of full n] \<open>0 < ?k\<close> by (auto simp: chunk_len_def)
  moreover obtain out where "split_loop it d n False (drop ?k full) = Inr out"
    "cs = mk_chunk it d first (take ?k full) (drop ?k full \<noteq> []) # out"
    using assms by (subst (asm) split_loop.simps) (auto simp: Let_def split: if_splits)
  ultimately show ?thesis
    using that chunk_len_le by blast
qed

lemma split_loop_Nil [simp]: "split_loop it d n first [] = Inr []"
  by (subst split_loop.simps) simp

lemma split_loop_sound:
  assumes "split_loop it d n first full = Inr cs"
  shows "concat (map chunk_bytes cs) = full \<and> (cs = [] \<longleftrightarrow> full = [])
    \<and> (\<forall>c \<in> set cs. 0 < length (chunk_bytes c) \<and> length (chunk_bytes c) \<le> n)
    \<and> map it_MoreData cs = replicate (length cs - 1) True @ replicate (min 1 (length cs)) False
    \<and> (\<forall>c \<in> set cs. item_LocURI c = item_LocURI it)"
  using assms
proof (induction "length full" arbitrary: full first cs rule: less_induct)
  case less
  show ?case
  proof (cases "full = []")
    case True
    then show ?thesis using less.prems by simp
  next
    case False
    obtain k out where k: "0 < k" "k \<le> n" "k \<le> length full"
      and cs: "cs = mk_chunk it d first (take k full) (drop k full \<noteq> []) # out"
      and out: "split_loop it d n False (drop k full) = Inr out"
      using split_loop_Cons [OF less.prems False] by metis
    have "length (drop k full) < length full"
      using k False by simp
    note IH = less.hyps [OF this out]
    show ?thesis
      using IH k False by (cases out) (auto simp: cs)
  qed
qed

text \<open>
  A chunk starts every rune it contains: the bytes after a cut begin a rune, so no chunk but
  the first can start inside one.
\<close>

lemma split_loop_starts:
  assumes "split_loop it d n first full = Inr cs"
  shows "\<forall>c \<in> set (tl cs). RuneStart (hd (chunk_bytes c))"
  using assms
proof (induction "length full" arbitrary: full first cs rule: less_induct)
  case less
  show ?case
  proof (cases "full = []")
    case True
    then show ?thesis using less.prems by simp
  next
    case False
    obtain k out where k: "0 < k" "k \<le> n" "k \<le> length full"
      and cs: "cs = mk_chunk it d first (take k full) (drop k full \<noteq> []) # out"
      and out: "split_loop it d n False (drop k full) = Inr out"
      and start: "k < length full \<longrightarrow> RuneStart (full ! k)"
      using split_loop_Cons [OF less.prems False] by metis
    show ?thesis
    proof (cases "drop k full = []")
      case True
      then show ?thesis using out by (simp add: cs)
    next
      case rest: False
      obtain j out' where j: "0 < j" "out = mk_chunk it d False (take j (drop k full)) (drop j (drop k full) \<noteq> []) # out'"
        using split_loop_Cons [OF out rest] by metis
      have "RuneStart (hd (chunk_bytes (hd out)))"
        using start rest j by (simp add: hd_drop_conv_nth)
      moreover have "\<forall>c \<in> set (tl out). RuneStart (hd (chunk_bytes c))"
        using less.hyps [OF _ out] k False by simp
      ultimately show ?thesis
        using j by (simp add: cs)
    qed
  qed
qed

text \<open>Valid UTF-8 is cut into valid UTF-8, and four bytes are enough for any character.\<close>

lemma rune_cut_ge: "RuneStart (full ! j) \<Longrightarrow> j \<le> n \<Longrightarrow> j \<le> rune_cut full n"
  by (induction n) (auto simp: le_Suc_eq)

lemma split_loop_utf8:
  assumes "split_loop it d n first full = Inr cs" "ValidString full"
  shows "\<forall>c \<in> set cs. ValidString (chunk_bytes c)"
  using assms
proof (induction "length full" arbitrary: full first cs rule: less_induct)
  case less
  show ?case
  proof (cases "full = []")
    case True
    then show ?thesis using less.prems by simp
  next
    case False
    obtain k out where k: "0 < k" "k \<le> length full"
      and cs: "cs = mk_chunk it d first (take k full) (drop k full \<noteq> []) # out"
      and out: "split_loop it d n False (drop k full) = Inr out"
      and start: "k < length full \<longrightarrow> RuneStart (full ! k)"
      using split_loop_Cons [OF less.prems(1) False] by metis
    have "ValidString (take k full) \<and> ValidString (drop k full)"
    proof (cases "k < length full")
      case True
      then show ?thesis using ValidString_cut less.prems(2) start by blast
    next
      case False
      then show ?thesis using less.prems(2) by (simp add: ValidString.simps [of "[]"])
    qed
    then show ?thesis
      using less.hyps [OF _ out] k False by (simp add: cs)
  qed
qed

lemma split_loop_total:
  assumes "ValidString full" "4 \<le> n"
  shows "\<exists>cs. split_loop it d n first full = Inr cs"
  using assms(1)
proof (induction "length full" arbitrary: full first rule: less_induct)
  case less
  let ?k = "chunk_len n full"
  show ?case
  proof (cases "n < length full")
    case True
    let ?w = "snd (DecodeRune full)"
    have ne: "full \<noteq> []"
      using True by auto
    note w = ne DecodeRune_width [OF ne]
    have "RuneStart (full ! ?w)"
      using w ValidString_next_start less.prems True assms(2) by simp
    then have "?w \<le> ?k"
      using rune_cut_ge [of full ?w n] w True assms(2) by (simp add: chunk_len_def)
    moreover have "?k < length full"
      using chunk_len_le(1) [of n full] True by simp
    moreover have "RuneStart (full ! ?k)"
      using rune_cut_start [of full n] calculation w True by (simp add: chunk_len_def)
    ultimately show ?thesis
      using less.hyps [of "drop ?k full" False] ValidString_cut less.prems w
      by (subst split_loop.simps) (auto simp: Let_def)
  next
    case False
    then show ?thesis
      by (subst split_loop.simps) (simp add: chunk_len_def Let_def)
  qed
qed

section \<open>Assembling\<close>

text \<open>
  The assembler's state: an object in transfer has a first chunk with data, and never more
  bytes than the limit.
\<close>

definition assembler_inv :: "assembler \<Rightarrow> bool" where
  "assembler_inv a =
     (int (length (as_buf a)) \<le> as_limit a
      \<and> (if as_pending a then it_Data (as_first a) \<noteq> None \<and> as_size a \<le> as_limit a
         else as_buf a = [] \<and> as_size a = 0))"

lemma as_limit_pos: "0 < as_limit a"
  by (simp add: as_limit_def DefaultMaxSize_def)

lemma as_limit_simps [simp]:
  "as_limit (assembler_Reset a) = as_limit a"
  "as_limit (a\<lparr>as_buf := b\<rparr>) = as_limit a"
  "as_limit (a\<lparr>as_size := z\<rparr>) = as_limit a"
  "as_limit (a\<lparr>as_pending := p\<rparr>) = as_limit a"
  "as_limit (a\<lparr>as_locURI := u\<rparr>) = as_limit a"
  "as_limit (a\<lparr>as_first := f\<rparr>) = as_limit a"
  by (simp_all add: as_limit_def assembler_Reset_def new_assembler_def)

lemma assembler_Reset_simps [simp]:
  "as_buf (assembler_Reset a) = []" "\<not> as_pending (assembler_Reset a)"
  "as_size (assembler_Reset a) = 0" "as_MaxSize (assembler_Reset a) = as_MaxSize a"
  by (simp_all add: assembler_Reset_def new_assembler_def)

lemma assembler_inv_new [simp]: "assembler_inv (new_assembler n)" "assembler_inv (assembler_Reset a)"
  by (simp_all add: assembler_inv_def assembler_Reset_def new_assembler_def as_limit_def
      DefaultMaxSize_def)

lemma assembler_open_inv:
  assumes "assembler_inv a"
  shows "case assembler_open a it of Inl (b, _) \<Rightarrow> assembler_inv b \<and> as_limit b = as_limit a
    | Inr b \<Rightarrow> assembler_inv b \<and> as_pending b \<and> as_limit b = as_limit a"
  using assms as_limit_pos [of a]
  by (auto simp: assembler_open_def Let_def assembler_inv_def split: option.split)

lemma assembler_append_inv:
  assumes "assembler_inv a" "as_pending a"
  shows "assembler_inv (fst (assembler_append a it)) \<and> as_limit (fst (assembler_append a it)) = as_limit a"
  using assms as_limit_pos [of a]
  by (auto simp: assembler_append_def Let_def assembler_inv_def split: option.split)

lemma assembler_Add_inv:
  assumes "assembler_inv a"
  shows "assembler_inv (fst (assembler_Add a it)) \<and> as_limit (fst (assembler_Add a it)) = as_limit a"
  using assembler_open_inv [OF assms, of it] assembler_append_inv [of _ it]
  by (auto simp: assembler_Add_def split: sum.splits)

lemma feed_inv:
  "assembler_inv a \<Longrightarrow> assembler_inv (fst (feed a its)) \<and> as_limit (fst (feed a its)) = as_limit a"
proof (induction its arbitrary: a)
  case (Cons it its)
  obtain b r where "assembler_Add a it = (b, r)"
    by (cases "assembler_Add a it")
  then show ?case
    using assembler_Add_inv [OF Cons.prems, of it] Cons.IH [of b] by (simp add: case_prod_beta)
qed simp

text \<open>
  What the assembler holds between two chunks of an object: the bytes so far, the first chunk
  and the declared size.
\<close>

definition holds :: "assembler \<Rightarrow> item \<Rightarrow> string \<Rightarrow> bool" where
  "holds a c0 bytes =
     (as_pending a \<and> as_locURI a = item_LocURI c0 \<and> as_first a = c0 \<and> as_buf a = bytes
      \<and> (\<exists>m. it_Meta c0 = Some m \<and> as_size a = m_Size m))"

definition plain_chunk :: "item \<Rightarrow> bool" where
  "plain_chunk c = (\<exists>d. it_Data c = Some d \<and> d_XML d = [])"

lemma assembler_Add_first:
  assumes "\<not> as_pending a" "plain_chunk c" "it_MoreData c" "it_Meta c = Some m"
    and "m_Size m \<le> as_limit a" "int (length (chunk_bytes c)) \<le> as_limit a"
  shows "\<exists>b. assembler_Add a c = (b, Inr None) \<and> holds b c (chunk_bytes c)
    \<and> as_limit b = as_limit a \<and> as_MaxSize b = as_MaxSize a"
  using assms by (auto simp: assembler_Add_def assembler_open_def assembler_append_def holds_def
      plain_chunk_def chunk_bytes_def Let_def)

lemma assembler_Add_more:
  assumes "holds a c0 bytes" "plain_chunk c" "item_LocURI c = item_LocURI c0" "it_MoreData c"
    and "int (length (bytes @ chunk_bytes c)) \<le> as_limit a"
  shows "\<exists>b. assembler_Add a c = (b, Inr None) \<and> holds b c0 (bytes @ chunk_bytes c)
    \<and> as_limit b = as_limit a \<and> as_MaxSize b = as_MaxSize a"
  using assms by (auto simp: assembler_Add_def assembler_open_def assembler_append_def holds_def
      plain_chunk_def chunk_bytes_def Let_def)

lemma assembler_Add_last:
  assumes "holds a c0 bytes" "plain_chunk c" "item_LocURI c = item_LocURI c0" "\<not> it_MoreData c"
    and "int (length (bytes @ chunk_bytes c)) \<le> as_limit a"
    and "m_Size (the (it_Meta c0)) = int (length (bytes @ chunk_bytes c))"
  shows "assembler_Add a c = (new_assembler (as_MaxSize a),
    Inr (Some (c0\<lparr>it_MoreData := False, it_Data := Some \<lparr>d_Value = bytes @ chunk_bytes c, d_XML = [],
      d_OriginalError = d_OriginalError (the (it_Data c0))\<rparr>\<rparr>)))"
  using assms by (auto simp: assembler_Add_def assembler_open_def assembler_append_def holds_def
      plain_chunk_def chunk_bytes_def Let_def assembled_def assembler_Reset_def)

lemma feed_rest:
  assumes "holds a c0 bytes" "cs \<noteq> []" "\<forall>c \<in> set cs. plain_chunk c \<and> item_LocURI c = item_LocURI c0"
    and "map it_MoreData cs = replicate (length cs - 1) True @ replicate (min 1 (length cs)) False"
    and "int (length (bytes @ concat (map chunk_bytes cs))) \<le> as_limit a"
    and "m_Size (the (it_Meta c0)) = int (length (bytes @ concat (map chunk_bytes cs)))"
  shows "feed a cs = (new_assembler (as_MaxSize a), replicate (length cs - 1) (Inr None) @
    [Inr (Some (c0\<lparr>it_MoreData := False, it_Data := Some \<lparr>d_Value = bytes @ concat (map chunk_bytes cs),
      d_XML = [], d_OriginalError = d_OriginalError (the (it_Data c0))\<rparr>\<rparr>))])"
  using assms
proof (induction cs arbitrary: a bytes)
  case (Cons c cs)
  show ?case
  proof (cases cs)
    case Nil
    then show ?thesis
      using assembler_Add_last [OF Cons.prems(1), of c] Cons.prems by simp
  next
    case (Cons c' cs')
    with Cons.prems obtain b where b: "assembler_Add a c = (b, Inr None)"
      "holds b c0 (bytes @ chunk_bytes c)" "as_limit b = as_limit a" "as_MaxSize b = as_MaxSize a"
      using assembler_Add_more [OF Cons.prems(1), of c] by auto
    have "feed b cs = (new_assembler (as_MaxSize b), replicate (length cs - 1) (Inr None) @
      [Inr (Some (c0\<lparr>it_MoreData := False, it_Data := Some
         \<lparr>d_Value = (bytes @ chunk_bytes c) @ concat (map chunk_bytes cs), d_XML = [],
          d_OriginalError = d_OriginalError (the (it_Data c0))\<rparr>\<rparr>))])"
      using Cons Cons.prems b by (intro Cons.IH) auto
    then show ?thesis
      using b Cons by simp
  qed
qed simp

lemma split_loop_plain:
  assumes "split_loop it d n first full = Inr cs"
  shows "\<forall>c \<in> set cs. plain_chunk c"
  using assms
proof (induction "length full" arbitrary: full first cs rule: less_induct)
  case less
  show ?case
  proof (cases "full = []")
    case False
    obtain k out where k: "0 < k" "k \<le> length full"
      and cs: "cs = mk_chunk it d first (take k full) (drop k full \<noteq> []) # out"
      and out: "split_loop it d n False (drop k full) = Inr out"
      using split_loop_Cons [OF less.prems(1) False] by metis
    then show ?thesis
      using less.hyps [OF _ out] k False by (simp add: plain_chunk_def)
  qed (use less.prems in simp)
qed

text \<open>An Item that is split, and what the assembler makes of its chunks.\<close>

definition oversized :: "item \<Rightarrow> data \<Rightarrow> int \<Rightarrow> bool" where
  "oversized it d n = (it_Data it = Some d \<and> d_XML d = [] \<and> n < int (length (d_Value d)))"

definition sized :: "item \<Rightarrow> item" where
  "sized it = it\<lparr>it_Meta := Some ((case it_Meta it of None \<Rightarrow> zero_meta | Some m \<Rightarrow> m)
     \<lparr>m_Size := int (length (chunk_bytes it))\<rparr>)\<rparr>"

lemma SplitItem_oversized:
  assumes "SplitItem it n = Inr cs" "oversized it d n"
  shows "split_loop it d (nat n) True (d_Value d) = Inr cs \<and> 1 \<le> n \<and> \<not> it_MoreData it"
  using assms by (auto simp: SplitItem_def oversized_def split: if_splits)

section \<open>Properties\<close>

text \<open>
  C7. Splitting and reassembly are inverse: when \<open>SplitItem\<close> cuts an Item whose data is over the
  chunk size, feeding its chunks in order to a fresh \<open>Assembler\<close> whose limit admits the object
  answers "more" for every chunk but the last and then returns the Item itself, with the
  length of the object recorded as its Meta Size, and leaves the assembler fresh.
\<close>

theorem split_assemble_roundtrip:
  assumes "SplitItem it n = Inr cs" "oversized it d n"
    and "int (length (d_Value d)) \<le> as_limit (new_assembler lim)"
  shows "feed (new_assembler lim) cs =
    (new_assembler lim, replicate (length cs - 1) (Inr None) @ [Inr (Some (sized it))])"
proof -
  note loop = SplitItem_oversized [OF assms(1,2)]
  have ne: "d_Value d \<noteq> []" and len: "nat n < length (d_Value d)"
    using assms(2) loop by (auto simp: oversized_def)
  obtain k out where k: "0 < k" "k \<le> nat n"
    and cs: "cs = mk_chunk it d True (take k (d_Value d)) (drop k (d_Value d) \<noteq> []) # out"
    and out: "split_loop it d (nat n) False (drop k (d_Value d)) = Inr out"
    using split_loop_Cons [of it d "nat n" True "d_Value d" cs] loop ne by metis
  let ?c0 = "mk_chunk it d True (take k (d_Value d)) True"
  have rest: "drop k (d_Value d) \<noteq> []"
    using k len by simp
  obtain m where meta: "it_Meta ?c0 = Some m" "m_Size m = int (length (d_Value d))"
    by (simp add: mk_chunk_def Let_def)
  obtain b where b: "assembler_Add (new_assembler lim) ?c0 = (b, Inr None)"
    "holds b ?c0 (take k (d_Value d))" "as_limit b = as_limit (new_assembler lim)" "as_MaxSize b = lim"
    using assembler_Add_first [of "new_assembler lim" ?c0, OF _ _ _ meta(1)] assms(3) k len meta(2)
    by (auto simp: new_assembler_def plain_chunk_def)
  have "feed b out = (new_assembler lim, replicate (length out - 1) (Inr None) @
      [Inr (Some (?c0\<lparr>it_MoreData := False, it_Data := Some
        \<lparr>d_Value = take k (d_Value d) @ concat (map chunk_bytes out), d_XML = [],
         d_OriginalError = d_OriginalError d\<rparr>\<rparr>))])"
    using feed_rest [OF b(2), of out] split_loop_sound [OF out] split_loop_plain [OF out] rest
      assms(3) meta b(3,4) by auto
  moreover have "concat (map chunk_bytes out) = drop k (d_Value d)"
    using split_loop_sound [OF out] by blast
  moreover have "?c0\<lparr>it_MoreData := False, it_Data := Some d\<rparr> = sized it"
    using assms(2) loop
    by (simp add: mk_chunk_def Let_def sized_def oversized_def chunk_bytes_def)
  moreover have "\<lparr>d_Value = d_Value d, d_XML = [], d_OriginalError = d_OriginalError d\<rparr> = d"
    using assms(2) by (simp add: oversized_def)
  moreover have "out \<noteq> []"
    using split_loop_sound [OF out] rest by blast
  ultimately show ?thesis
    using b(1) rest by (cases out) (simp_all add: cs)
qed

definition euro :: string where
  "euro = [CHR 0xE2, CHR 0x82, CHR 0xAC]"

definition large_item :: item where
  "large_item = zero_item\<lparr>it_Target := ''./A'', it_Data := Some (data_value (''abc'' @ euro @ ''d''))\<rparr>"

lemma large_item_split:
  "SplitItem large_item 5 =
     Inr [mk_chunk large_item (data_value (''abc'' @ euro @ ''d'')) True ''abc'' True,
          mk_chunk large_item (data_value (''abc'' @ euro @ ''d'')) False (euro @ ''d'') False]"
  by (simp add: SplitItem_def large_item_def euro_def data_value_def zero_item_def split_loop.simps
      Let_def chunk_len_def rune_cut.simps(2) RuneStart_def numeral_eq_Suc)

lemma large_item_oversized:
  "oversized large_item (data_value (''abc'' @ euro @ ''d'')) 5"
  by (simp add: oversized_def large_item_def data_value_def euro_def zero_item_def)

theorem split_assemble_roundtrip_witness:
  "\<exists>cs. SplitItem large_item 5 = Inr cs \<and> length cs = 2
     \<and> feed (new_assembler 0) cs = (new_assembler 0, [Inr None, Inr (Some (sized large_item))])"
  using split_assemble_roundtrip [OF large_item_split large_item_oversized, of 0]
  by (simp add: large_item_split data_value_def euro_def as_limit_def new_assembler_def
      DefaultMaxSize_def del: feed.simps)

text \<open>
  C22. Every chunk of a split Item keeps the Item's address, is nonempty and carries at most
  \<open>maxDataBytes\<close> bytes; the bytes of the chunks in order are the Item's; MoreData is set on every
  chunk but the last; and every chunk after the first begins at the start of a rune.
\<close>

theorem SplitItem_chunks:
  assumes "SplitItem it n = Inr cs" "oversized it d n"
  shows "concat (map chunk_bytes cs) = d_Value d
    \<and> (\<forall>c \<in> set cs. item_LocURI c = item_LocURI it
          \<and> 0 < length (chunk_bytes c) \<and> int (length (chunk_bytes c)) \<le> n)
    \<and> map it_MoreData cs = replicate (length cs - 1) True @ [False]
    \<and> (\<forall>c \<in> set (tl cs). RuneStart (hd (chunk_bytes c)))"
proof -
  note loop = SplitItem_oversized [OF assms]
  then have sound: "split_loop it d (nat n) True (d_Value d) = Inr cs" "1 \<le> n" by blast+
  have "d_Value d \<noteq> []"
    using assms(2) sound(2) by (auto simp: oversized_def)
  then have "cs \<noteq> []"
    using split_loop_sound [OF sound(1)] by blast
  then show ?thesis
    using split_loop_sound [OF sound(1)] split_loop_starts [OF sound(1)] sound(2)
    by (cases cs) (auto simp: nat_le_iff le_nat_iff)
qed

theorem SplitItem_chunks_witness:
  "\<exists>cs. SplitItem large_item 5 = Inr cs \<and> (\<forall>c \<in> set cs. int (length (chunk_bytes c)) \<le> 5)"
  using SplitItem_chunks [OF large_item_split large_item_oversized] large_item_split by blast

text \<open>
  C21. \<open>SplitItem\<close> succeeds on valid UTF-8 for every chunk size of at least four bytes, the width
  of the longest encoding, and each chunk is again valid UTF-8.
\<close>

theorem SplitItem_utf8:
  assumes "oversized it d n" "\<not> it_MoreData it" "ValidString (d_Value d)" "4 \<le> n"
  shows "\<exists>cs. SplitItem it n = Inr cs \<and> (\<forall>c \<in> set cs. ValidString (chunk_bytes c))"
proof -
  obtain cs where "split_loop it d (nat n) True (d_Value d) = Inr cs"
    using split_loop_total [OF assms(3)] assms(4) by (metis nat_numeral nat_mono)
  then show ?thesis
    using assms split_loop_utf8 [of it d "nat n" True "d_Value d" cs]
    by (auto simp: SplitItem_def oversized_def)
qed

theorem SplitItem_utf8_witness:
  "ValidString (''abc'' @ euro @ ''d'') \<and> (\<exists>cs. SplitItem large_item 5 = Inr cs)"
proof -
  have v: "ValidString (''abc'' @ euro @ ''d'')"
    by (simp add: euro_def ValidString.simps rune_ok_def rune_error_def in_range_def second_range_def
        cont_def Let_def)
  then show ?thesis
    using SplitItem_utf8 [OF large_item_oversized] by (auto simp: large_item_def zero_item_def data_value_def)
qed

text \<open>
  C19. Whatever Items a client sends, in whatever order, the assembler never buffers more bytes
  than its limit, which no call changes, and it holds nothing when no object is in transfer.
\<close>

theorem assembler_bounded:
  "int (length (as_buf (fst (feed (new_assembler lim) its)))) \<le> as_limit (new_assembler lim)
    \<and> (as_pending (fst (feed (new_assembler lim) its)) \<or> as_buf (fst (feed (new_assembler lim) its)) = [])"
  using feed_inv [OF assembler_inv_new(1), of lim its]
  by (auto simp: assembler_inv_def split: if_splits)

end
