(* ===== verification/Syncml_Encode.thy ===== *)
theory Syncml_Encode
  imports Syncml_Message
begin

text \<open>
  The encoder, \<open>mdmprotocol/syncml/encode.go\<close>, down to the bytes. The calls of the writer
  that change its buffer (\<open>raw\<close>, \<open>open\<close>, \<open>close\<close>, \<open>empty\<close>, \<open>text\<close> and the markup branch of
  \<open>data\<close>) are recorded as a list of events in call order, and \<open>render\<close> is what they append
  to the buffer for an indentation string and a depth.
\<close>

section \<open>xml.EscapeText\<close>

definition in_character_range :: "nat \<Rightarrow> bool" where
  "in_character_range r =
     (r = 9 \<or> r = 10 \<or> r = 13 \<or> (32 \<le> r \<and> r \<le> 55295) \<or> (57344 \<le> r \<and> r \<le> 65533)
      \<or> (65536 \<le> r \<and> r \<le> 1114111))"

definition escape_rune :: "nat \<Rightarrow> nat \<Rightarrow> string \<Rightarrow> string" where
  "escape_rune r w raw =
     (if r = 34 then ''&#34;'' else if r = 39 then ''&#39;'' else if r = 38 then ''&amp;''
      else if r = 60 then ''&lt;'' else if r = 62 then ''&gt;'' else if r = 9 then ''&#x9;''
      else if r = 10 then ''&#xA;'' else if r = 13 then ''&#xD;''
      else if \<not> in_character_range r \<or> (r = rune_error \<and> w = 1)
        then [CHR 0xEF, CHR 0xBF, CHR 0xBD]
      else raw)"

function EscapeText :: "string \<Rightarrow> string" where
  "EscapeText s =
     (if s = [] then []
      else let r = fst (DecodeRune s); w = snd (DecodeRune s)
           in escape_rune r w (take w s) @ EscapeText (drop w s))"
  by pat_completeness auto
termination
  by (relation "measure length") (use DecodeRune_width in \<open>auto simp: Suc_le_eq\<close>)

declare EscapeText.simps [simp del]

text \<open>An equation for evaluation, with the bytes that stand for themselves decided first.\<close>

lemma EscapeText_code [code]:
  "EscapeText s = (case s of [] \<Rightarrow> []
     | c # cs \<Rightarrow>
         if visible c \<and> c \<notin> set [CHR 0x22, CHR 0x27, CHR ''&'', CHR ''<'', CHR ''>''] then c # EscapeText cs
         else let r = fst (DecodeRune s); w = snd (DecodeRune s)
              in escape_rune r w (take w s) @ EscapeText (drop w s))"
proof (cases s)
  case (Cons c cs)
  show ?thesis
  proof (cases "visible c \<and> c \<notin> set [CHR 0x22, CHR 0x27, CHR ''&'', CHR ''<'', CHR ''>'']")
    case True
    then have "byte c < 128" "32 \<le> byte c" by (simp_all add: visible_def)
    moreover have "byte c \<noteq> 34" "byte c \<noteq> 39" "byte c \<noteq> 38" "byte c \<noteq> 60" "byte c \<noteq> 62"
      using True by (auto simp: of_char_eq_iff [symmetric, where 'a = nat] simp del: of_char_eq_iff)
    ultimately have "DecodeRune (c # cs) = (byte c, 1)" "escape_rune (byte c) 1 [c] = [c]"
      by (simp_all add: escape_rune_def in_character_range_def rune_error_def Let_def)
    then show ?thesis using True Cons by (subst EscapeText.simps) (simp add: Let_def)
  next
    case False
    then show ?thesis by (subst EscapeText.simps) (simp only: Cons list.case if_not_P list.distinct if_False)
  qed
qed (simp add: EscapeText.simps)

section \<open>The writer\<close>

type_synonym attrs = "(string \<times> string) list"

datatype xev =
    XOpen string attrs
  | XClose string
  | XEmpty string
  | XText string string attrs
  | XMarkup string

definition pad :: "string \<Rightarrow> nat \<Rightarrow> string" where
  "pad indent depth = concat (replicate depth indent)"

definition newline :: "string \<Rightarrow> string" where
  "newline indent = (if indent \<noteq> [] then [CHR 0x0A] else [])"

definition render_attrs :: "attrs \<Rightarrow> string" where
  "render_attrs as =
     concat (map (\<lambda>(n, v). '' '' @ n @ ''='' @ [CHR 0x22] @ EscapeText v @ [CHR 0x22]) as)"

text \<open>The bytes one call appends, and the depth after it.\<close>

fun render_ev :: "string \<Rightarrow> nat \<Rightarrow> xev \<Rightarrow> string \<times> nat" where
  "render_ev indent depth (XOpen n as) =
     (pad indent depth @ ''<'' @ n @ render_attrs as @ ''>'' @ newline indent, depth + 1)"
| "render_ev indent depth (XClose n) =
     (pad indent (depth - 1) @ ''</'' @ n @ ''>'' @ newline indent, depth - 1)"
| "render_ev indent depth (XEmpty n) =
     (pad indent depth @ ''<'' @ n @ ''/>'' @ newline indent, depth)"
| "render_ev indent depth (XText n v as) =
     (pad indent depth @ ''<'' @ n @ render_attrs as @ ''>'' @ EscapeText v @ ''</'' @ n @ ''>''
        @ newline indent, depth)"
| "render_ev indent depth (XMarkup s) = (pad indent depth @ s @ newline indent, depth)"

fun render :: "string \<Rightarrow> nat \<Rightarrow> xev list \<Rightarrow> string" where
  "render indent depth [] = []"
| "render indent depth (e # es) =
     (case render_ev indent depth e of (s, depth') \<Rightarrow> s @ render indent depth' es)"

definition e_textIf :: "string \<Rightarrow> string \<Rightarrow> xev list" where
  "e_textIf name value = (if value \<noteq> [] then [XText name value []] else [])"

definition e_flag :: "bool \<Rightarrow> string \<Rightarrow> xev list" where
  "e_flag b name = (if b then [XEmpty name] else [])"

definition e_location :: "string \<Rightarrow> location \<Rightarrow> xev list" where
  "e_location name l =
     XOpen name [] # XText ''LocURI'' (l_LocURI l) [] # e_textIf ''LocName'' (l_LocName l) @ [XClose name]"

definition metinf :: attrs where
  "metinf = [(''xmlns'', NamespaceMetInf)]"

definition e_metaText :: "string \<Rightarrow> string \<Rightarrow> xev list" where
  "e_metaText name value = (if value \<noteq> [] then [XText name value metinf] else [])"

definition e_metaInt :: "string \<Rightarrow> int \<Rightarrow> xev list" where
  "e_metaInt name value = (if value \<noteq> 0 then [XText name (Itoa value) metinf] else [])"

definition e_meta :: "meta option \<Rightarrow> xev list" where
  "e_meta mo = (case mo of None \<Rightarrow> [] | Some m \<Rightarrow>
     [XOpen ''Meta'' []] @ e_metaText ''Format'' (m_Format m) @ e_metaText ''Type'' (m_Type m)
     @ e_metaText ''Mark'' (m_Mark m) @ e_metaInt ''Size'' (m_Size m)
     @ e_metaText ''NextNonce'' (m_NextNonce m) @ e_metaInt ''MaxMsgSize'' (m_MaxMsgSize m)
     @ e_metaInt ''MaxObjSize'' (m_MaxObjSize m) @ [XClose ''Meta''])"

definition e_cred :: "cred option \<Rightarrow> xev list" where
  "e_cred co = (case co of None \<Rightarrow> [] | Some c \<Rightarrow>
     [XOpen ''Cred'' []] @ e_meta (Some (cr_Meta c)) @ [XText ''Data'' (cr_Data c) [], XClose ''Cred''])"

definition e_chal :: "chal option \<Rightarrow> xev list" where
  "e_chal co = (case co of None \<Rightarrow> [] | Some c \<Rightarrow>
     [XOpen ''Chal'' []] @ e_meta (Some (ch_Meta c)) @ [XClose ''Chal''])"

definition e_header :: "header \<Rightarrow> xev list" where
  "e_header h =
     [XOpen ''SyncHdr'' [], XText ''VerDTD'' (h_VerDTD h) [], XText ''VerProto'' (h_VerProto h) [],
      XText ''SessionID'' (h_SessionID h) [], XText ''MsgID'' (h_MsgID h) []]
     @ e_location ''Target'' (h_Target h) @ e_location ''Source'' (h_Source h)
     @ e_textIf ''RespURI'' (h_RespURI h) @ e_flag (h_NoResp h) ''NoResp''
     @ e_cred (h_Cred h) @ e_meta (h_Meta h) @ [XClose ''SyncHdr'']"

text \<open>From \<open>data\<close> on the calls may fail; the events are those of a call that returns nil.\<close>

definition e_data :: "data option \<Rightarrow> xev list result" where
  "e_data do' = (case do' of None \<Rightarrow> Inr [] | Some d \<Rightarrow>
     if d_Value d \<noteq> [] \<and> d_XML d \<noteq> [] then Inl [Syncml_ErrDataConflict]
     else let as = (if d_OriginalError d \<noteq> [] then [(''msft:originalerror'', d_OriginalError d)] else [])
          in if d_XML d = [] then Inr [XText ''Data'' (d_Value d) as]
             else Inr [XOpen ''Data'' as, XMarkup (TrimSpace (d_XML d)), XClose ''Data''])"

definition e_itemLoc :: "string \<Rightarrow> string \<Rightarrow> xev list" where
  "e_itemLoc name uri =
     (if uri \<noteq> [] then [XOpen name [], XText ''LocURI'' uri [], XClose name] else [])"

definition e_item :: "item \<Rightarrow> xev list result" where
  "e_item it =
     rbind (e_data (it_Data it)) (\<lambda>d.
       Inr ([XOpen ''Item'' []] @ e_itemLoc ''Target'' (it_Target it) @ e_itemLoc ''Source'' (it_Source it)
         @ e_meta (it_Meta it) @ d @ e_flag (it_MoreData it) ''MoreData'' @ [XClose ''Item'']))"

fun e_items :: "item list \<Rightarrow> xev list result" where
  "e_items [] = Inr []"
| "e_items (it # its) = rbind (e_item it) (\<lambda>e. rbind (e_items its) (\<lambda>es. Inr (e @ es)))"

definition e_itemCommand :: "string \<Rightarrow> string \<Rightarrow> bool \<Rightarrow> string \<Rightarrow> cred option \<Rightarrow> meta option \<Rightarrow> item list
    \<Rightarrow> xev list result" where
  "e_itemCommand name cmdID noResp lang cr mt its =
     rbind (e_items its) (\<lambda>es.
       Inr ([XOpen name [], XText ''CmdID'' cmdID []] @ e_flag noResp ''NoResp'' @ e_textIf ''Lang'' lang
         @ e_cred cr @ e_meta mt @ es @ [XClose name]))"

definition e_exec :: "exec_fields \<Rightarrow> xev list result" where
  "e_exec n =
     rbind (e_items (c_Items n)) (\<lambda>es.
       Inr ([XOpen CmdExec [], XText ''CmdID'' (c_CmdID n) []] @ e_flag (c_NoResp n) ''NoResp''
         @ e_cred (c_Cred n) @ e_meta (c_Meta n) @ e_textIf ''Correlator'' (x_Correlator n) @ es
         @ [XClose CmdExec]))"

definition e_alert :: "alert \<Rightarrow> xev list result" where
  "e_alert n =
     rbind (e_items (a_Items n)) (\<lambda>es.
       Inr ([XOpen CmdAlert [], XText ''CmdID'' (a_CmdID n) []] @ e_flag (a_NoResp n) ''NoResp''
         @ e_cred (a_Cred n) @ e_textIf ''Data'' (a_Data n) @ e_textIf ''Correlator'' (a_Correlator n) @ es
         @ [XClose CmdAlert]))"

definition e_status :: "status \<Rightarrow> xev list result" where
  "e_status n =
     rbind (e_data (Some (s_Data n))) (\<lambda>d. rbind (e_items (s_Items n)) (\<lambda>es.
       Inr ([XOpen CmdStatus [], XText ''CmdID'' (s_CmdID n) [], XText ''MsgRef'' (s_MsgRef n) [],
             XText ''CmdRef'' (s_CmdRef n) [], XText ''Cmd'' (s_Cmd n) []]
         @ map (\<lambda>r. XText ''TargetRef'' r []) (s_TargetRef n)
         @ map (\<lambda>r. XText ''SourceRef'' r []) (s_SourceRef n)
         @ e_cred (s_Cred n) @ e_chal (s_Chal n) @ d @ es @ [XClose CmdStatus])))"

definition e_results :: "results \<Rightarrow> xev list result" where
  "e_results n =
     rbind (e_items (r_Items n)) (\<lambda>es.
       Inr ([XOpen CmdResults [], XText ''CmdID'' (r_CmdID n) []] @ e_textIf ''MsgRef'' (r_MsgRef n)
         @ [XText ''CmdRef'' (r_CmdRef n) []] @ e_textIf ''Cmd'' (r_Cmd n) @ e_meta (r_Meta n)
         @ e_textIf ''TargetRef'' (r_TargetRef n) @ e_textIf ''SourceRef'' (r_SourceRef n) @ es
         @ [XClose CmdResults]))"

definition e_group :: "string \<Rightarrow> group_fields \<Rightarrow> xev list \<Rightarrow> xev list" where
  "e_group name g sub =
     [XOpen name [], XText ''CmdID'' (gp_CmdID g) []] @ e_flag (gp_NoResp g) ''NoResp''
     @ e_meta (gp_Meta g) @ sub @ [XClose name]"

fun e_command :: "command \<Rightarrow> xev list result"
and e_commands :: "command list \<Rightarrow> xev list result" where
  "e_command (Add n) = e_itemCommand CmdAdd (c_CmdID n) (c_NoResp n) [] (c_Cred n) (c_Meta n) (c_Items n)"
| "e_command (Replace n) =
     e_itemCommand CmdReplace (c_CmdID n) (c_NoResp n) [] (c_Cred n) (c_Meta n) (c_Items n)"
| "e_command (Delete n) =
     e_itemCommand CmdDelete (c_CmdID n) (c_NoResp n) [] (c_Cred n) (c_Meta n) (c_Items n)"
| "e_command (Get n) =
     e_itemCommand CmdGet (c_CmdID n) (c_NoResp n) (g_Lang n) (c_Cred n) (c_Meta n) (c_Items n)"
| "e_command (Exec n) = e_exec n"
| "e_command (Alert n) = e_alert n"
| "e_command (Atomic g cs) = rbind (e_commands cs) (\<lambda>es. Inr (e_group CmdAtomic g es))"
| "e_command (Sequence g cs) = rbind (e_commands cs) (\<lambda>es. Inr (e_group CmdSequence g es))"
| "e_command (Status n) = e_status n"
| "e_command (Results n) = e_results n"
| "e_commands [] = Inr []"
| "e_commands (c # cs) = rbind (e_command c) (\<lambda>e. rbind (e_commands cs) (\<lambda>es. Inr (e @ es)))"

definition e_body :: "body \<Rightarrow> xev list result" where
  "e_body b =
     rbind (e_commands (b_Commands b)) (\<lambda>es.
       Inr ([XOpen ''SyncBody'' (if b_MSFTNamespace b then [(''xmlns:msft'', NamespaceMSFT)] else [])]
         @ es @ e_flag (b_Final b) ''Final'' @ [XClose ''SyncBody'']))"

definition e_message :: "message \<Rightarrow> xev list result" where
  "e_message m =
     rbind (e_body (msg_Body m)) (\<lambda>b.
       Inr ([XOpen ''SyncML'' [(''xmlns'', if msg_Namespace m = NamespaceSyncML11 then NamespaceSyncML11
                                          else NamespaceSyncML12)]]
         @ e_header (msg_Header m) @ b @ [XClose ''SyncML'']))"

definition xml_declaration :: string where
  "xml_declaration = ''<?xml version='' @ [CHR 0x22] @ ''1.0'' @ [CHR 0x22] @ '' encoding='' @ [CHR 0x22]
     @ ''UTF-8'' @ [CHR 0x22] @ ''?>''"

definition Encode :: "message \<Rightarrow> string \<Rightarrow> bool \<Rightarrow> string result" where
  "Encode m indent xmlDeclaration =
     rbind (e_message m) (\<lambda>es.
       Inr ((if xmlDeclaration then xml_declaration @ newline indent else []) @ render indent 0 es))"

definition Marshal :: "message \<Rightarrow> string result" where
  "Marshal m = Encode m [] False"

definition EncodeCommand :: "command \<Rightarrow> string \<Rightarrow> string result" where
  "EncodeCommand c indent = rbind (e_command c) (\<lambda>es. Inr (render indent 0 es))"

section \<open>The calls are balanced\<close>

text \<open>
  What a reader of the events sees: every \<open>close\<close> ends the element opened last. The checker
  keeps the stack of open elements.
\<close>

fun nested :: "string list \<Rightarrow> xev list \<Rightarrow> string list option" where
  "nested st [] = Some st"
| "nested st (XOpen n _ # es) = nested (n # st) es"
| "nested st (XClose n # es) = (case st of [] \<Rightarrow> None | m # st' \<Rightarrow> if m = n then nested st' es else None)"
| "nested st (_ # es) = nested st es"

definition balanced :: "xev list \<Rightarrow> bool" where
  "balanced es = (\<forall>st. nested st es = Some st)"

lemma nested_append:
  "nested st (es @ fs) = (case nested st es of None \<Rightarrow> None | Some st' \<Rightarrow> nested st' fs)"
  by (induction st es rule: nested.induct) (auto split: list.splits)

lemma balanced_append [simp]: "balanced es \<Longrightarrow> balanced fs \<Longrightarrow> balanced (es @ fs)"
  by (simp add: balanced_def nested_append)

lemma balanced_leaf [simp]:
  "balanced []" "balanced (XText n v as # es) = balanced es" "balanced (XEmpty n # es) = balanced es"
  "balanced (XMarkup v # es) = balanced es"
  by (simp_all add: balanced_def)

text \<open>The rest of an element: balanced content and its closing tag.\<close>

definition closes :: "string \<Rightarrow> xev list \<Rightarrow> bool" where
  "closes n es = (\<forall>st. nested (n # st) es = Some st)"

lemma closes_simps [simp]:
  "closes n [XClose n]"
  "closes n (XText m v as # es) = closes n es" "closes n (XEmpty m # es) = closes n es"
  "closes n (XMarkup v # es) = closes n es"
  "balanced es \<Longrightarrow> closes n (es @ fs) = closes n fs"
  by (simp_all add: closes_def balanced_def nested_append)

lemma balanced_open [simp]: "closes n es \<Longrightarrow> balanced (XOpen n as # es)"
  by (simp add: closes_def balanced_def)

lemma closes_open [simp]: "closes m es \<Longrightarrow> closes n fs \<Longrightarrow> closes n (XOpen m as # es @ fs)"
  by (simp add: closes_def nested_append)

lemma balanced_parts [simp]:
  "balanced (e_textIf n v)" "balanced (e_flag b n)" "balanced (e_metaText n v)" "balanced (e_metaInt n i)"
  by (simp_all add: e_textIf_def e_flag_def e_metaText_def e_metaInt_def)

lemma balanced_meta [simp]: "balanced (e_meta m)"
  by (simp add: e_meta_def split: option.split)

lemma balanced_elements [simp]:
  "balanced (e_cred c)" "balanced (e_chal ch)" "balanced (e_location n l)" "balanced (e_itemLoc n u)"
  by (simp_all add: e_cred_def e_chal_def e_location_def e_itemLoc_def split: option.split)

lemma balanced_header [simp]: "balanced (e_header h)"
  by (simp add: e_header_def)

lemma balanced_data [simp]: "e_data d = Inr es \<Longrightarrow> balanced es"
  by (auto simp: e_data_def Let_def split: option.splits if_splits)

lemma balanced_item [simp]: "e_item it = Inr es \<Longrightarrow> balanced es"
  by (auto simp: e_item_def)

lemma balanced_items [simp]: "e_items its = Inr es \<Longrightarrow> balanced es"
  by (induction its arbitrary: es) auto

lemma balanced_refs [simp]: "balanced (map (\<lambda>r. XText n r []) rs)"
  by (induction rs) auto

lemma balanced_leaf_commands [simp]:
  "e_itemCommand name i n lang cr mt its = Inr es \<Longrightarrow> balanced es"
  "e_exec x = Inr es \<Longrightarrow> balanced es"
  "e_alert al = Inr es \<Longrightarrow> balanced es"
  "e_status st = Inr es \<Longrightarrow> balanced es"
  "e_results rs = Inr es \<Longrightarrow> balanced es"
  by (auto simp: e_itemCommand_def e_exec_def e_alert_def e_status_def e_results_def)

lemma balanced_command: "e_command c = Inr es \<Longrightarrow> balanced es"
  and balanced_commands: "e_commands cs = Inr es \<Longrightarrow> balanced es"
  by (induction c and cs arbitrary: es and es rule: e_command_e_commands.induct)
    (auto simp: e_group_def)

lemma balanced_body [simp]: "e_body b = Inr es \<Longrightarrow> balanced es"
  by (auto simp: e_body_def balanced_commands)

lemma balanced_message: "e_message m = Inr es \<Longrightarrow> balanced es"
  by (auto simp: e_message_def)

section \<open>When encoding fails\<close>

definition conflict :: "data option \<Rightarrow> bool" where
  "conflict d = (\<exists>x. d = Some x \<and> d_Value x \<noteq> [] \<and> d_XML x \<noteq> [])"

text \<open>Every Data of a command that the encoder writes through \<open>data\<close>.\<close>

fun cmd_datas :: "command \<Rightarrow> data option list" where
  "cmd_datas (Add n) = map it_Data (c_Items n)"
| "cmd_datas (Replace n) = map it_Data (c_Items n)"
| "cmd_datas (Delete n) = map it_Data (c_Items n)"
| "cmd_datas (Get n) = map it_Data (c_Items n)"
| "cmd_datas (Exec n) = map it_Data (c_Items n)"
| "cmd_datas (Alert n) = map it_Data (a_Items n)"
| "cmd_datas (Atomic _ cs) = concat (map cmd_datas cs)"
| "cmd_datas (Sequence _ cs) = concat (map cmd_datas cs)"
| "cmd_datas (Status n) = Some (s_Data n) # map it_Data (s_Items n)"
| "cmd_datas (Results n) = map it_Data (r_Items n)"

definition fails_iff :: "'a result \<Rightarrow> bool \<Rightarrow> bool" where
  "fails_iff r b = (if b then r = Inl [Syncml_ErrDataConflict] else (\<exists>x. r = Inr x))"

lemma fails_iff_simps [simp]:
  "fails_iff (Inr x) b = (\<not> b)"
  "fails_iff (rbind r (\<lambda>x. Inr (g x))) b = fails_iff r b"
  by (cases r; auto simp: fails_iff_def)+

lemma fails_iff_rbind:
  "fails_iff r b \<Longrightarrow> (\<And>x. fails_iff (f x) b') \<Longrightarrow> fails_iff (rbind r f) (b \<or> b')"
  by (cases r) (auto simp: fails_iff_def split: if_splits)

lemma e_data_fails: "fails_iff (e_data d) (conflict d)"
  by (auto simp: fails_iff_def e_data_def conflict_def Let_def split: option.splits)

lemma e_items_fails: "fails_iff (e_items its) (list_ex conflict (map it_Data its))"
proof (induction its)
  case (Cons it its)
  then show ?case
    by (simp, intro fails_iff_rbind) (simp_all add: e_item_def e_data_fails)
qed simp

lemma e_command_fails: "fails_iff (e_command c) (list_ex conflict (cmd_datas c))"
  and e_commands_fails: "fails_iff (e_commands cs) (list_ex conflict (concat (map cmd_datas cs)))"
proof (induction c and cs rule: e_command_e_commands.induct)
  case (9 n)
  show ?case
    by (simp add: e_status_def, intro fails_iff_rbind e_data_fails) (simp add: e_items_fails)
next
  case (12 c cs)
  then show ?case
    by (simp, intro fails_iff_rbind) simp_all
qed (simp_all add: e_itemCommand_def e_exec_def e_alert_def e_results_def e_items_fails)

section \<open>Properties\<close>

text \<open>
  C27. \<open>Encode\<close> is total and fails in exactly one case, whatever the options: when some Data the
  message carries, at any depth, has both a value and markup; the error is then
  \<open>ErrDataConflict\<close>.
\<close>

theorem Encode_fails_iff:
  "if list_ex conflict (concat (map cmd_datas (b_Commands (msg_Body m))))
   then Encode m indent decl = Inl [Syncml_ErrDataConflict]
   else (\<exists>out. Encode m indent decl = Inr out)"
  using e_commands_fails [of "b_Commands (msg_Body m)"]
  by (auto simp: fails_iff_def Encode_def e_message_def e_body_def split: if_splits)


end
