(* ===== verification/Syncml_Auth.thy ===== *)
theory Syncml_Auth
  imports Syncml_Message
begin

text \<open>
  The protocol authentication of \<open>mdmprotocol/syncml/auth.go\<close>: MD5 digests over a stored hash
  and a nonce, base64 basic credentials, and challenges. The hash function is a parameter
  \<open>md5\<close>; \<open>subtle.ConstantTimeCompare\<close> decides equality.
\<close>

definition CredentialHash :: "(string \<Rightarrow> string) \<Rightarrow> string \<Rightarrow> string \<Rightarrow> string" where
  "CredentialHash md5 username password = md5 (username @ '':'' @ password)"

definition MD5DigestFromHash :: "(string \<Rightarrow> string) \<Rightarrow> string \<Rightarrow> string \<Rightarrow> string" where
  "MD5DigestFromHash md5 credHash nonce = b64_encode (md5 (b64_encode credHash @ '':'' @ nonce))"

definition MD5Digest :: "(string \<Rightarrow> string) \<Rightarrow> string \<Rightarrow> string \<Rightarrow> string \<Rightarrow> string" where
  "MD5Digest md5 username password nonce =
     MD5DigestFromHash md5 (CredentialHash md5 username password) nonce"

definition VerifyMD5 :: "(string \<Rightarrow> string) \<Rightarrow> string \<Rightarrow> string \<Rightarrow> string \<Rightarrow> bool" where
  "VerifyMD5 md5 received credHash nonce = (received = MD5DigestFromHash md5 credHash nonce)"

definition BasicCredential :: "string \<Rightarrow> string \<Rightarrow> string" where
  "BasicCredential username password = b64_encode (username @ '':'' @ password)"

definition ParseBasicCredential :: "string \<Rightarrow> (string \<times> string) result" where
  "ParseBasicCredential d =
     (case b64_decode (TrimSpace d) of
        None \<Rightarrow> Inl [Syncml_ErrAuth]
      | Some raw \<Rightarrow> (case Cut CHR '':'' raw of
            None \<Rightarrow> Inl [Syncml_ErrAuth]
          | Some (u, p) \<Rightarrow> Inr (u, p)))"

text \<open>\<open>NewNonce\<close>; \<open>read\<close> is what \<open>rand.Read\<close> yields for that many bytes, \<open>None\<close> for its error.\<close>

definition NewNonce :: "(nat \<Rightarrow> string option) \<Rightarrow> int \<Rightarrow> string result" where
  "NewNonce read n =
     (if n < 1 then Inl [Syncml_ErrAuth]
      else case read (nat n) of None \<Rightarrow> Inl [Syncml_ErrAuth] | Some b \<Rightarrow> Inr b)"

definition NewMD5Cred :: "string \<Rightarrow> cred" where
  "NewMD5Cred digest =
     \<lparr>cr_Meta = zero_meta\<lparr>m_Type := AuthMD5Type, m_Format := FormatB64\<rparr>, cr_Data = digest\<rparr>"

definition NewBasicCred :: "string \<Rightarrow> string \<Rightarrow> cred" where
  "NewBasicCred username password =
     \<lparr>cr_Meta = zero_meta\<lparr>m_Type := AuthBasicType, m_Format := FormatB64\<rparr>,
      cr_Data = BasicCredential username password\<rparr>"

definition NewMD5Chal :: "string \<Rightarrow> chal" where
  "NewMD5Chal nonce =
     \<lparr>ch_Meta = zero_meta\<lparr>m_Type := AuthMD5Type, m_Format := FormatB64,
        m_NextNonce := b64_encode nonce\<rparr>\<rparr>"

definition NewBasicChal :: chal where
  "NewBasicChal = \<lparr>ch_Meta = zero_meta\<lparr>m_Type := AuthBasicType, m_Format := FormatB64\<rparr>\<rparr>"

definition chal_Nonce :: "chal option \<Rightarrow> string result" where
  "chal_Nonce c =
     (if (case c of None \<Rightarrow> True | Some x \<Rightarrow> m_NextNonce (ch_Meta x) = []) then Inl [Syncml_ErrAuth]
      else case b64_decode (TrimSpace (m_NextNonce (ch_Meta (the c)))) of
          None \<Rightarrow> Inl [Syncml_ErrAuth]
        | Some b \<Rightarrow> if b = [] then Inl [Plain ''syncml: auth: empty NextNonce''] else Inr b)"

section \<open>Facts\<close>

lemma b64_encode_empty [simp]: "b64_encode s = [] \<longleftrightarrow> s = []"
  by (cases s rule: b64_encode.cases) auto

lemma b64_encode_inj [simp]: "b64_encode s = b64_encode t \<longleftrightarrow> s = t"
  by (metis b64_decode_encode option.inject)

section \<open>Properties\<close>

text \<open>
  C29. A basic credential parses back to the user name and password it was made from, for every
  password and every user name without a colon.
\<close>

theorem basic_credential_roundtrip:
  assumes "CHR '':'' \<notin> set username"
  shows "ParseBasicCredential (BasicCredential username password) = Inr (username, password)"
  using assms by (simp add: ParseBasicCredential_def BasicCredential_def b64_decode_encode)

theorem basic_credential_roundtrip_witness:
  "ParseBasicCredential (BasicCredential ''alice'' ''s:cret'') = Inr (''alice'', ''s:cret'')"
  using basic_credential_roundtrip [of "''alice''" "''s:cret''"] by simp

text \<open>
  The MD5 exchange: the client that answers a challenge with the digest over the nonce the
  challenge carries is accepted, and a digest made from another stored hash or another nonce is
  accepted only where \<open>md5\<close> itself maps the two different texts to one value.
\<close>

theorem md5_exchange:
  assumes "nonce \<noteq> []"
  shows "(\<exists>n. chal_Nonce (Some (NewMD5Chal nonce)) = Inr n
      \<and> VerifyMD5 md5 (MD5Digest md5 u p n) (CredentialHash md5 u p) nonce)
    \<and> (VerifyMD5 md5 (MD5DigestFromHash md5 h' n') h nonce \<longleftrightarrow>
      md5 (b64_encode h' @ '':'' @ n') = md5 (b64_encode h @ '':'' @ nonce))"
  using assms
  by (simp add: chal_Nonce_def NewMD5Chal_def b64_decode_encode VerifyMD5_def MD5Digest_def
      MD5DigestFromHash_def)

theorem md5_exchange_witness:
  "\<exists>n. chal_Nonce (Some (NewMD5Chal ''abc'')) = Inr n
     \<and> VerifyMD5 rev (MD5Digest rev ''u'' ''p'' n) (CredentialHash rev ''u'' ''p'') ''abc''"
  using md5_exchange [of "''abc''"] by simp

end
