(* ===== verification/Mdm_Command.thy ===== *)
theory Mdm_Command
  imports Syncml_Validate
begin

text \<open>
  Management commands, \<open>mdmprotocol/mdm/command.go\<close>: the builders, the structural check a
  queue applies before it stores a command, and the scope of an address. Every command made
  with the builders is shown to pass the check.
\<close>

section \<open>Scopes and addresses\<close>

type_synonym scope = string

definition ScopeDevice :: scope where "ScopeDevice = ''device''"
definition ScopeUser :: scope where "ScopeUser = ''user''"

definition ScopeOf :: "string \<Rightarrow> scope" where
  "ScopeOf uri =
     (let u = TrimSpace uri
      in if 7 \<le> length u \<and> EqualFold (take 7 u) ''./User/'' \<or> EqualFold u ''./User'' then ScopeUser
         else ScopeDevice)"

text \<open>\<open>url.PathEscape\<close>, through which the generated URI functions pass their arguments.\<close>

definition hex_char :: "nat \<Rightarrow> char" where
  "hex_char n = (if n < 10 then char_of (48 + n) else char_of (55 + n))"

definition path_safe :: "char \<Rightarrow> bool" where
  "path_safe c =
     (let b = byte c in (48 \<le> b \<and> b \<le> 57) \<or> (65 \<le> b \<and> b \<le> 90) \<or> (97 \<le> b \<and> b \<le> 122)
      \<or> c \<in> set ''-_.~$&+=:@'')"

definition PathEscape :: "string \<Rightarrow> string" where
  "PathEscape s =
     concat (map (\<lambda>c. if path_safe c then [c]
                     else [CHR 0x25, hex_char (byte c div 16), hex_char (byte c mod 16)]) s)"

definition providerPath :: "string \<Rightarrow> string" where
  "providerPath providerID = ''./Device/Vendor/MSFT/DMClient/Provider/'' @ PathEscape providerID"

definition DeviceProviderUnenroll :: "string \<Rightarrow> string" where
  "DeviceProviderUnenroll providerID = providerPath providerID @ ''/Unenroll''"

definition DeviceProviderPushChannelURI :: "string \<Rightarrow> string" where
  "DeviceProviderPushChannelURI providerID = providerPath providerID @ ''/Push/ChannelURI''"

definition DeviceProviderPushStatus :: "string \<Rightarrow> string" where
  "DeviceProviderPushStatus providerID = providerPath providerID @ ''/Push/Status''"

definition DeviceUnenroll :: string where
  "DeviceUnenroll = ''./Device/Vendor/MSFT/DMClient/Unenroll''"

section \<open>Commands and builders\<close>

record mcmd =
  mc_ID :: string
  mc_Scope :: scope
  mc_Body :: "command option"
  mc_Internal :: bool

definition zero_mcmd :: mcmd where
  "zero_mcmd = \<lparr>mc_ID = [], mc_Scope = [], mc_Body = None, mc_Internal = False\<rparr>"

record options =
  o_format :: string
  o_typ :: string
  o_xml :: bool
  o_id :: string

datatype opt = WithFormat string | WithType string | WithXML | WithID string

fun apply_opt :: "opt \<Rightarrow> options \<Rightarrow> options" where
  "apply_opt (WithFormat f) o' = o'\<lparr>o_format := f\<rparr>"
| "apply_opt (WithType t) o' = o'\<lparr>o_typ := t\<rparr>"
| "apply_opt WithXML o' = o'\<lparr>o_xml := True\<rparr>"
| "apply_opt (WithID i) o' = o'\<lparr>o_id := i\<rparr>"

definition build :: "opt list \<Rightarrow> options" where
  "build opts = fold apply_opt opts \<lparr>o_format = [], o_typ = [], o_xml = False, o_id = []\<rparr>"

definition new_item :: "string \<Rightarrow> string option \<Rightarrow> options \<Rightarrow> item result" where
  "new_item uri value o' =
     (case CheckLocURI uri of
        Inl e \<Rightarrow> Inl (Mdm_ErrCommand # e)
      | Inr _ \<Rightarrow>
          Inr (zero_item\<lparr>it_Target := uri,
            it_Meta := (if o_format o' \<noteq> [] \<or> o_typ o' \<noteq> []
                        then Some (zero_meta\<lparr>m_Format := o_format o', m_Type := o_typ o'\<rparr>) else None),
            it_Data := map_option (\<lambda>v. \<lparr>d_Value = (if o_xml o' then [] else v),
                                       d_XML = (if o_xml o' then v else []), d_OriginalError = []\<rparr>) value\<rparr>))"

definition leaf_command :: "options \<Rightarrow> scope \<Rightarrow> command \<Rightarrow> mcmd" where
  "leaf_command o' sc body = \<lparr>mc_ID = o_id o', mc_Scope = sc, mc_Body = Some body, mc_Internal = False\<rparr>"

definition NewAdd :: "string \<Rightarrow> string \<Rightarrow> opt list \<Rightarrow> mcmd result" where
  "NewAdd uri value opts =
     (let o' = build opts in rbind (new_item uri (Some value) o') (\<lambda>it.
        Inr (leaf_command o' (ScopeOf uri) (Add (zero_cmd\<lparr>c_Items := [it]\<rparr>)))))"

definition NewReplace :: "string \<Rightarrow> string \<Rightarrow> opt list \<Rightarrow> mcmd result" where
  "NewReplace uri value opts =
     (let o' = build opts in rbind (new_item uri (Some value) o') (\<lambda>it.
        Inr (leaf_command o' (ScopeOf uri) (Replace (zero_cmd\<lparr>c_Items := [it]\<rparr>)))))"

definition NewDelete :: "string \<Rightarrow> opt list \<Rightarrow> mcmd result" where
  "NewDelete uri opts =
     (let o' = build opts in rbind (new_item uri None o') (\<lambda>it.
        Inr (leaf_command o' (ScopeOf uri) (Delete (zero_cmd\<lparr>c_Items := [it]\<rparr>)))))"

fun get_items :: "options \<Rightarrow> scope \<Rightarrow> string list \<Rightarrow> item list result" where
  "get_items o' sc [] = Inr []"
| "get_items o' sc (u # us) =
     rbind (new_item u None o') (\<lambda>it.
       if ScopeOf u \<noteq> sc then Inl [Mdm_ErrScope]
       else rbind (get_items o' sc us) (\<lambda>its. Inr (it # its)))"

definition NewGet :: "string list \<Rightarrow> opt list \<Rightarrow> mcmd result" where
  "NewGet uris opts =
     (case uris of
        [] \<Rightarrow> Inl [Mdm_ErrCommand]
      | u # _ \<Rightarrow>
          let o' = build opts; sc = ScopeOf u
          in rbind (get_items o' sc uris) (\<lambda>its.
               Inr (leaf_command o' sc (Get (zero_get\<lparr>c_Items := its\<rparr>)))))"

definition NewExec :: "string \<Rightarrow> string \<Rightarrow> opt list \<Rightarrow> mcmd result" where
  "NewExec uri value opts =
     (let o' = build opts
      in rbind (new_item uri (if value \<noteq> [] then Some value else None) o') (\<lambda>it.
           Inr (leaf_command o' (ScopeOf uri) (Exec (zero_exec\<lparr>c_Items := [it]\<rparr>)))))"

fun itemsOf :: "command \<Rightarrow> item list" where
  "itemsOf (Add n) = c_Items n"
| "itemsOf (Replace n) = c_Items n"
| "itemsOf (Delete n) = c_Items n"
| "itemsOf (Get n) = c_Items n"
| "itemsOf (Exec n) = c_Items n"
| "itemsOf _ = []"

definition targets :: "command \<Rightarrow> string list" where
  "targets c = map it_Target (itemsOf c)"

text \<open>
  The loop over one member's targets: \<open>seen\<close> maps a node to the name of the last command on it.
\<close>

fun aar_targets :: "string \<Rightarrow> string list \<Rightarrow> (string \<Rightarrow> string) \<Rightarrow> (string \<Rightarrow> string) result" where
  "aar_targets name [] seen = Inr seen"
| "aar_targets name (uri # uris) seen =
     (if seen uri = CmdAdd \<and> name = CmdReplace then Inl [Mdm_ErrCommand]
      else aar_targets name uris (seen(uri := name)))"

definition atomic_member_ok :: "command \<Rightarrow> bool" where
  "atomic_member_ok body =
     (case body of
        Atomic _ _ \<Rightarrow> False
      | Get _ \<Rightarrow> False
      | Sequence _ inner \<Rightarrow>
          list_all (\<lambda>i. case i of Get _ \<Rightarrow> False | Atomic _ _ \<Rightarrow> False | _ \<Rightarrow> True) inner
      | _ \<Rightarrow> True)"

fun atomic_loop :: "scope \<Rightarrow> (string \<Rightarrow> string) \<Rightarrow> mcmd option list \<Rightarrow> command list result" where
  "atomic_loop sc seen [] = Inr []"
| "atomic_loop sc seen (c # cs) =
     (case c of None \<Rightarrow> Inl [Mdm_ErrCommand]
      | Some m \<Rightarrow> (case mc_Body m of None \<Rightarrow> Inl [Mdm_ErrCommand]
        | Some body \<Rightarrow>
            if \<not> atomic_member_ok body then Inl [Mdm_ErrCommand]
            else if mc_Scope m \<noteq> sc then Inl [Mdm_ErrScope]
            else rbind (aar_targets (cmd_Name body) (targets body) seen) (\<lambda>seen'.
                   rbind (atomic_loop sc seen' cs) (\<lambda>bs. Inr (body # bs)))))"

definition head_scope :: "mcmd option list \<Rightarrow> scope result" where
  "head_scope cmds =
     (case cmds of
        Some m # _ \<Rightarrow> (if mc_Body m = None then Inl [Mdm_ErrCommand] else Inr (mc_Scope m))
      | _ \<Rightarrow> Inl [Mdm_ErrCommand])"

definition NewAtomic :: "mcmd option list \<Rightarrow> opt list \<Rightarrow> mcmd result" where
  "NewAtomic cmds opts =
     rbind (head_scope cmds) (\<lambda>sc.
       rbind (atomic_loop sc (\<lambda>_. []) cmds) (\<lambda>bs.
         Inr (leaf_command (build opts) sc (Atomic zero_group bs))))"

fun sequence_loop :: "scope \<Rightarrow> mcmd option list \<Rightarrow> command list result" where
  "sequence_loop sc [] = Inr []"
| "sequence_loop sc (c # cs) =
     (case c of None \<Rightarrow> Inl [Mdm_ErrCommand]
      | Some m \<Rightarrow> (case mc_Body m of None \<Rightarrow> Inl [Mdm_ErrCommand]
        | Some body \<Rightarrow>
            if (case body of Atomic _ _ \<Rightarrow> True | Sequence _ _ \<Rightarrow> True | _ \<Rightarrow> False)
            then Inl [Mdm_ErrCommand]
            else if mc_Scope m \<noteq> sc then Inl [Mdm_ErrScope]
            else rbind (sequence_loop sc cs) (\<lambda>bs. Inr (body # bs))))"

definition NewSequence :: "mcmd option list \<Rightarrow> opt list \<Rightarrow> mcmd result" where
  "NewSequence cmds opts =
     rbind (head_scope cmds) (\<lambda>sc.
       rbind (sequence_loop sc cmds) (\<lambda>bs.
         Inr (leaf_command (build opts) sc (Sequence zero_group bs))))"

fun Leaves :: "command \<Rightarrow> command list" where
  "Leaves (Atomic _ cs) = concat (map Leaves cs)"
| "Leaves (Sequence _ cs) = concat (map Leaves cs)"
| "Leaves c = [c]"

section \<open>The structural check\<close>

fun check_items :: "scope \<Rightarrow> item list \<Rightarrow> unit result" where
  "check_items sc [] = Inr ()"
| "check_items sc (it # its) =
     (case CheckLocURI (it_Target it) of
        Inl e \<Rightarrow> Inl (Mdm_ErrCommand # e)
      | Inr _ \<Rightarrow> if ScopeOf (it_Target it) \<noteq> sc then Inl [Mdm_ErrScope] else check_items sc its)"

fun check_leaves :: "scope \<Rightarrow> command list \<Rightarrow> unit result" where
  "check_leaves sc [] = Inr ()"
| "check_leaves sc (leaf # ls) =
     (let its = itemsOf leaf
      in if its = [] then Inl [Mdm_ErrCommand]
         else if (case leaf of Exec _ \<Rightarrow> length its \<noteq> 1 | _ \<Rightarrow> False) then Inl [Mdm_ErrCommand]
         else rbind (check_items sc its) (\<lambda>_. check_leaves sc ls))"

definition mdm_Validate :: "mcmd option \<Rightarrow> unit result" where
  "mdm_Validate co =
     (case co of None \<Rightarrow> Inl [Mdm_ErrCommand]
      | Some c \<Rightarrow> (case mc_Body c of None \<Rightarrow> Inl [Mdm_ErrCommand]
        | Some body \<Rightarrow>
            if (case body of Status _ \<Rightarrow> True | Results _ \<Rightarrow> True | Alert _ \<Rightarrow> True | _ \<Rightarrow> False)
            then Inl [Mdm_ErrCommand]
            else if Leaves body = [] then Inl [Mdm_ErrCommand]
            else rbind (check_leaves (mc_Scope c) (Leaves body)) (\<lambda>_.
                   case body of
                     Atomic _ cs \<Rightarrow>
                       rbind (NewAtomic (map (\<lambda>inner. Some (zero_mcmd\<lparr>mc_Scope := mc_Scope c,
                                                                    mc_Body := Some inner\<rparr>)) cs) [])
                         (\<lambda>_. Inr ())
                   | _ \<Rightarrow> Inr ())))"

definition NewUnenroll :: "string \<Rightarrow> mcmd result" where
  "NewUnenroll providerID =
     (if providerID = [] then Inl [Mdm_ErrCommand] else NewExec (DeviceProviderUnenroll providerID) [] [])"

definition NewUnenrollDevice :: "mcmd result" where
  "NewUnenrollDevice = NewExec DeviceUnenroll [] []"

section \<open>What the check accepts\<close>

definition leaf_ok :: "scope \<Rightarrow> command \<Rightarrow> bool" where
  "leaf_ok sc leaf =
     (itemsOf leaf \<noteq> [] \<and> ((\<exists>n. leaf = Exec n) \<longrightarrow> length (itemsOf leaf) = 1)
      \<and> (\<forall>it \<in> set (itemsOf leaf). locuri_ok (it_Target it) \<and> ScopeOf (it_Target it) = sc))"

text \<open>
  The nodes the members of a group write, in order, each with the name of the command; and
  the rule on them: the last command before a Replace of a node is not an Add of it.
\<close>

definition trace :: "command list \<Rightarrow> (string \<times> string) list" where
  "trace cs = concat (map (\<lambda>b. map (\<lambda>u. (u, cmd_Name b)) (targets b)) cs)"

definition no_add_replace :: "(string \<times> string) list \<Rightarrow> bool" where
  "no_add_replace tr = (\<forall>xs u ys. tr = xs @ (u, CmdReplace) # ys \<longrightarrow> map_of (rev xs) u \<noteq> Some CmdAdd)"

definition server_command :: "command \<Rightarrow> bool" where
  "server_command c = ((\<forall>n. c \<noteq> Status n) \<and> (\<forall>n. c \<noteq> Results n) \<and> (\<forall>n. c \<noteq> Alert n))"

definition mcmd_ok :: "mcmd \<Rightarrow> bool" where
  "mcmd_ok c =
     (\<exists>body. mc_Body c = Some body \<and> server_command body \<and> Leaves body \<noteq> []
        \<and> (\<forall>leaf \<in> set (Leaves body). leaf_ok (mc_Scope c) leaf)
        \<and> (\<forall>g cs. body = Atomic g cs \<longrightarrow> list_all atomic_member_ok cs \<and> no_add_replace (trace cs)))"

lemma CheckLocURI_ok: "CheckLocURI u = Inr x \<longleftrightarrow> locuri_ok u"
  by (simp add: locuri_ok_def)

lemma check_items_iff:
  "check_items sc its = Inr () \<longleftrightarrow>
     (\<forall>it \<in> set its. locuri_ok (it_Target it) \<and> ScopeOf (it_Target it) = sc)"
  by (induction its) (auto simp: locuri_ok_def split: sum.splits)

lemma check_leaves_iff: "check_leaves sc ls = Inr () \<longleftrightarrow> (\<forall>leaf \<in> set ls. leaf_ok sc leaf)"
proof (induction ls)
  case (Cons leaf ls)
  then show ?case
    by (cases leaf) (auto simp: Let_def leaf_ok_def check_items_iff)
qed simp

text \<open>\<open>seen\<close> is the last command on each node of the trace so far.\<close>

definition seen_of :: "(string \<times> string) list \<Rightarrow> string \<Rightarrow> string" where
  "seen_of tr u = (case map_of (rev tr) u of None \<Rightarrow> [] | Some n \<Rightarrow> n)"

lemma seen_of_snoc: "seen_of (tr @ [(u, n)]) = (seen_of tr)(u := n)"
  by (auto simp: seen_of_def)

lemma seen_of_Nil [simp]: "seen_of [] = (\<lambda>_. [])"
  by (auto simp: seen_of_def)

lemma seen_of_Add: "seen_of tr u = CmdAdd \<longleftrightarrow> map_of (rev tr) u = Some CmdAdd"
  by (auto simp: seen_of_def cmd_names split: option.split)

lemma no_add_replace_snoc:
  "no_add_replace (tr @ [(u, n)]) \<longleftrightarrow> no_add_replace tr \<and> \<not> (seen_of tr u = CmdAdd \<and> n = CmdReplace)"
  by (auto simp: no_add_replace_def seen_of_Add append_eq_append_conv2 Cons_eq_append_conv append_eq_Cons_conv)
    (metis append_Nil2 append.assoc append_Cons)+

lemma no_add_replace_prefix: "no_add_replace (tr @ xs) \<Longrightarrow> no_add_replace tr"
  by (auto simp: no_add_replace_def)

lemma aar_targets_iff:
  assumes "no_add_replace tr"
  shows "aar_targets n us (seen_of tr) = Inr seen' \<longleftrightarrow>
    no_add_replace (tr @ map (\<lambda>u. (u, n)) us) \<and> seen' = seen_of (tr @ map (\<lambda>u. (u, n)) us)"
  using assms
proof (induction us arbitrary: tr)
  case (Cons u us)
  show ?case
  proof (cases "seen_of tr u = CmdAdd \<and> n = CmdReplace")
    case True
    then show ?thesis
      using no_add_replace_prefix [of "tr @ [(u, n)]"] no_add_replace_snoc [of tr u n] by auto
  next
    case False
    then have "aar_targets n (u # us) (seen_of tr) = aar_targets n us (seen_of (tr @ [(u, n)]))"
      by (simp only: aar_targets.simps seen_of_snoc if_False)
    moreover have "no_add_replace (tr @ [(u, n)])"
      using False Cons.prems no_add_replace_snoc by blast
    ultimately show ?thesis
      using Cons.IH by simp
  qed
qed auto

definition is_member :: "scope \<Rightarrow> mcmd option \<Rightarrow> command \<Rightarrow> bool" where
  "is_member sc m b = (\<exists>c. m = Some c \<and> mc_Body c = Some b \<and> mc_Scope c = sc)"

lemma trace_Cons: "trace (b # bs) = map (\<lambda>u. (u, cmd_Name b)) (targets b) @ trace bs"
  by (simp add: trace_def)

lemma atomic_loop_iff:
  assumes "no_add_replace tr"
  shows "atomic_loop sc (seen_of tr) cmds = Inr bs \<longleftrightarrow>
    list_all2 (is_member sc) cmds bs \<and> list_all atomic_member_ok bs \<and> no_add_replace (tr @ trace bs)"
  using assms
proof (induction cmds arbitrary: tr bs)
  case Nil
  then show ?case by (auto simp: trace_def)
next
  case (Cons m cmds)
  let ?t = "\<lambda>b. tr @ map (\<lambda>u. (u, cmd_Name b)) (targets b)"
  have step: "atomic_loop sc (seen_of tr) (m # cmds) = Inr bs \<longleftrightarrow>
    (\<exists>b bs'. bs = b # bs' \<and> is_member sc m b \<and> atomic_member_ok b \<and> no_add_replace (?t b)
       \<and> atomic_loop sc (seen_of (?t b)) cmds = Inr bs')"
    by (auto simp: is_member_def aar_targets_iff [OF Cons.prems] split: option.splits if_splits)
  show ?case
    unfolding step using Cons.IH no_add_replace_prefix [of "?t _" "trace _"]
    by (cases bs) (auto simp: trace_Cons list_all2_Cons1)
qed

lemma wrapped_members:
  "list_all2 (is_member sc) (map (\<lambda>b. Some (zero_mcmd\<lparr>mc_Scope := sc, mc_Body := Some b\<rparr>)) cs) bs
     \<longleftrightarrow> bs = cs"
  by (auto simp: list_all2_map1 is_member_def list_all2_conv_all_nth intro: nth_equalityI)

lemma no_add_replace_Nil [simp]: "no_add_replace []"
  by (simp add: no_add_replace_def)

lemma NewAtomic_wrapped:
  assumes "cs \<noteq> []"
  shows "(\<exists>x. NewAtomic (map (\<lambda>b. Some (zero_mcmd\<lparr>mc_Scope := sc, mc_Body := Some b\<rparr>)) cs) os = Inr x)
    \<longleftrightarrow> list_all atomic_member_ok cs \<and> no_add_replace (trace cs)"
proof -
  let ?ms = "map (\<lambda>b. Some (zero_mcmd\<lparr>mc_Scope := sc, mc_Body := Some b\<rparr>)) cs"
  have "head_scope ?ms = Inr sc"
    using assms by (cases cs) (auto simp: head_scope_def)
  then show ?thesis
    using atomic_loop_iff [OF no_add_replace_Nil, of sc ?ms]
    by (auto simp: NewAtomic_def wrapped_members)
qed

lemma mdm_Validate_correct: "mdm_Validate (Some c) = Inr () \<longleftrightarrow> mcmd_ok c"
proof (cases "mc_Body c")
  case (Some body)
  show ?thesis
  proof (cases "\<exists>g cs. body = Atomic g cs")
    case True
    then obtain g cs where body: "body = Atomic g cs" by blast
    then show ?thesis
      using Some NewAtomic_wrapped [of cs "mc_Scope c" "[]"]
      by (cases "cs = []") (auto simp: mdm_Validate_def mcmd_ok_def check_leaves_iff server_command_def
          simp del: check_leaves.simps)
  next
    case False
    then show ?thesis
      using Some by (cases body) (auto simp: mdm_Validate_def mcmd_ok_def check_leaves_iff server_command_def
          simp del: check_leaves.simps)
  qed
qed (simp add: mdm_Validate_def mcmd_ok_def)

section \<open>The builders\<close>

text \<open>Commands made with the builders, whose caller may set the identifier and the Internal mark.\<close>

inductive built :: "mcmd \<Rightarrow> bool" where
  add: "NewAdd uri value opts = Inr c \<Longrightarrow> built c"
| replace: "NewReplace uri value opts = Inr c \<Longrightarrow> built c"
| delete: "NewDelete uri opts = Inr c \<Longrightarrow> built c"
| get: "NewGet uris opts = Inr c \<Longrightarrow> built c"
| exec: "NewExec uri value opts = Inr c \<Longrightarrow> built c"
| atomic: "\<lbrakk>\<And>m. m \<in> set cmds \<Longrightarrow> built m; NewAtomic (map Some cmds) opts = Inr c\<rbrakk> \<Longrightarrow> built c"
| sequence: "\<lbrakk>\<And>m. m \<in> set cmds \<Longrightarrow> built m; NewSequence (map Some cmds) opts = Inr c\<rbrakk> \<Longrightarrow> built c"
| mark: "built c \<Longrightarrow> built (c\<lparr>mc_ID := i, mc_Internal := b\<rparr>)"

lemma new_item_ok: "new_item uri v o' = Inr it \<Longrightarrow> locuri_ok (it_Target it) \<and> it_Target it = uri"
  by (auto simp: new_item_def locuri_ok_def split: sum.splits)

lemma get_items_ok:
  "get_items o' sc us = Inr its \<Longrightarrow>
     length its = length us \<and> (\<forall>it \<in> set its. locuri_ok (it_Target it) \<and> ScopeOf (it_Target it) = sc)"
  by (induction us arbitrary: its) (auto dest!: new_item_ok split: if_splits)

lemma mcmd_ok_leaf:
  assumes "server_command body" "Leaves body = [body]" "\<And>g cs. body \<noteq> Atomic g cs"
  shows "mcmd_ok (leaf_command o' sc body) \<longleftrightarrow> leaf_ok sc body"
  using assms by (auto simp: mcmd_ok_def leaf_command_def)

lemma new_leaf_ok:
  "NewAdd uri value opts = Inr c \<Longrightarrow> mcmd_ok c"
  "NewReplace uri value opts = Inr c \<Longrightarrow> mcmd_ok c"
  "NewDelete uri opts = Inr c \<Longrightarrow> mcmd_ok c"
  "NewExec uri value opts = Inr c \<Longrightarrow> mcmd_ok c"
  by (auto simp: NewAdd_def NewReplace_def NewDelete_def NewExec_def Let_def mcmd_ok_leaf
      server_command_def leaf_ok_def zero_cmd_def zero_exec_def dest: new_item_ok)

lemma new_get_ok: "NewGet uris opts = Inr c \<Longrightarrow> mcmd_ok c"
  by (auto simp: NewGet_def Let_def mcmd_ok_leaf server_command_def leaf_ok_def zero_get_def
      split: list.splits dest!: get_items_ok new_item_ok)

lemma members_of_map:
  "list_all2 (is_member sc) (map Some cmds) bs \<longleftrightarrow>
     list_all2 (\<lambda>c b. mc_Body c = Some b \<and> mc_Scope c = sc) cmds bs"
  by (simp add: list_all2_map1 is_member_def)

text \<open>The members of a group are checked, so its leaves are, under the scope they share.\<close>

lemma group_leaves_ok:
  assumes "list_all2 (\<lambda>c b. mc_Body c = Some b \<and> mc_Scope c = sc) cmds bs" "cmds \<noteq> []"
    and "\<And>m. m \<in> set cmds \<Longrightarrow> mcmd_ok m"
  shows "concat (map Leaves bs) \<noteq> [] \<and> (\<forall>leaf \<in> set (concat (map Leaves bs)). leaf_ok sc leaf)"
  using assms
proof (induction rule: list_all2_induct)
  case (Cons c cmds b bs)
  have "Leaves b \<noteq> [] \<and> (\<forall>leaf \<in> set (Leaves b). leaf_ok sc leaf)"
    using Cons.hyps Cons.prems(2) [of c] by (auto simp: mcmd_ok_def)
  then show ?case
    using Cons.IH Cons.prems(2) by (cases "cmds = []") (use Cons.hyps(2) in auto)
qed simp

lemma sequence_loop_members:
  "sequence_loop sc cmds = Inr bs \<Longrightarrow> list_all2 (is_member sc) cmds bs"
  by (induction cmds arbitrary: bs)
    (auto simp: is_member_def split: option.splits if_splits)

lemma head_scope_nonempty: "head_scope cmds = Inr sc \<Longrightarrow> cmds \<noteq> []"
  by (auto simp: head_scope_def)

lemma built_ok: "built c \<Longrightarrow> mcmd_ok c"
proof (induction rule: built.induct)
  case (atomic cmds opts c)
  then obtain sc bs where hs: "head_scope (map Some cmds) = Inr sc"
    and loop: "atomic_loop sc (seen_of []) (map Some cmds) = Inr bs"
    and c: "c = leaf_command (build opts) sc (Atomic zero_group bs)"
    by (auto simp: NewAtomic_def)
  have "list_all2 (is_member sc) (map Some cmds) bs" "list_all atomic_member_ok bs" "no_add_replace (trace bs)"
    using loop atomic_loop_iff [OF no_add_replace_Nil, of sc "map Some cmds" bs] by auto
  then show ?case
    using group_leaves_ok [of sc cmds bs] atomic.IH head_scope_nonempty [OF hs]
    by (auto simp: c mcmd_ok_def leaf_command_def server_command_def members_of_map)
next
  case (sequence cmds opts c)
  then obtain sc bs where hs: "head_scope (map Some cmds) = Inr sc"
    and loop: "sequence_loop sc (map Some cmds) = Inr bs"
    and c: "c = leaf_command (build opts) sc (Sequence zero_group bs)"
    by (auto simp: NewSequence_def)
  then show ?case
    using group_leaves_ok [of sc cmds bs] sequence.IH head_scope_nonempty [OF hs]
      sequence_loop_members [OF loop]
    by (auto simp: c mcmd_ok_def leaf_command_def server_command_def members_of_map)
next
  case (mark c i b)
  then show ?case by (simp add: mcmd_ok_def)
qed (auto intro: new_leaf_ok new_get_ok)

section \<open>Properties\<close>


text \<open>
  C26. Every command made with the builders, groups of built commands included, passes the check a
  queue applies before it stores a command.
\<close>

theorem built_validates: "built c \<Longrightarrow> mdm_Validate (Some c) = Inr ()"
  by (simp add: mdm_Validate_correct built_ok)

definition sample_replace :: mcmd where
  "sample_replace = leaf_command (build []) ScopeDevice
     (Replace (zero_cmd\<lparr>c_Items := [zero_item\<lparr>it_Target := ''./A/B'', it_Data := Some (data_value ''1'')\<rparr>]\<rparr>))"

lemma sample_replace_new: "NewReplace ''./A/B'' ''1'' [] = Inr sample_replace"
proof -
  have "locuri_ok ''./A/B''" by (simp add: locuri_ok_iff before_def)
  moreover have "ScopeOf ''./A/B'' = ScopeDevice"
    by (simp add: ScopeOf_def EqualFold_def lower_ascii_def visible_def)
  ultimately show ?thesis
    by (simp add: NewReplace_def new_item_def locuri_ok_def sample_replace_def build_def data_value_def
        zero_item_def)
qed

theorem built_validates_witness:
  "\<exists>c. NewAtomic [Some sample_replace] [] = Inr c \<and> mdm_Validate (Some c) = Inr ()"
proof -
  obtain c where c: "NewAtomic (map Some [sample_replace]) [] = Inr c"
    by (simp add: NewAtomic_def head_scope_def sample_replace_def leaf_command_def atomic_member_ok_def
        targets_def zero_cmd_def CmdAdd_def)
  have "built c"
    by (rule built.atomic [OF _ c]) (auto intro: built.replace [OF sample_replace_new])
  then show ?thesis
    using c built_validates [of c] by auto
qed

end
