(* ===== verification/Paging.thy ===== *)
theory Paging
  imports Go_Prelude
begin

text \<open>
  Cursor pages: \<open>paging/paging.go\<close> and the offset cursor of the in-memory stores
  (\<open>page\<close> in \<open>storage/inmem/inmem.go\<close>). Following the cursors from the start is shown to visit
  the whole list in order and to end.
\<close>

record page =
  pg_Cursor :: string
  pg_Limit :: int

record 'a page_result =
  pr_Items :: "'a list"
  pr_NextCursor :: string

definition DefaultPageSize :: int where "DefaultPageSize = 100"
definition MaxPageSize :: int where "MaxPageSize = 1000"

definition page_Size :: "page \<Rightarrow> int" where
  "page_Size p =
     (if pg_Limit p \<le> 0 then DefaultPageSize
      else if MaxPageSize < pg_Limit p then MaxPageSize
      else pg_Limit p)"

definition page_slice :: "'a list \<Rightarrow> nat \<Rightarrow> nat \<Rightarrow> 'a page_result" where
  "page_slice all n sz =
     (let offset = min n (length all); end' = min (offset + sz) (length all)
      in \<lparr>pr_Items = take (end' - offset) (drop offset all),
          pr_NextCursor = (if end' < length all then Itoa (int end') else [])\<rparr>)"

definition page_of :: "'a list \<Rightarrow> page \<Rightarrow> 'a page_result result" where
  "page_of all p =
     (if pg_Cursor p = [] then Inr (page_slice all 0 (nat (page_Size p)))
      else case Atoi (pg_Cursor p) of (n, err) \<Rightarrow>
        if err \<noteq> None \<or> n < 0 then Inl [Storage_ErrInvalid]
        else Inr (page_slice all (nat n) (nat (page_Size p))))"

text \<open>
  A client that follows the cursors: fetch a page, keep its items, and go on with the next
  cursor until it is empty. \<open>None\<close> is running out of fuel.
\<close>

fun follow :: "nat \<Rightarrow> (page \<Rightarrow> 'a page_result result) \<Rightarrow> page \<Rightarrow> 'a list result option" where
  "follow 0 fetch p = None"
| "follow (Suc fuel) fetch p =
     (case fetch p of
        Inl e \<Rightarrow> Some (Inl e)
      | Inr r \<Rightarrow>
          if pr_NextCursor r = [] then Some (Inr (pr_Items r))
          else map_option (\<lambda>res. rbind res (\<lambda>rest. Inr (pr_Items r @ rest)))
                 (follow fuel fetch (p\<lparr>pg_Cursor := pr_NextCursor r\<rparr>)))"

lemma page_Size_bounds: "1 \<le> page_Size p" "page_Size p \<le> MaxPageSize"
  by (auto simp: page_Size_def DefaultPageSize_def MaxPageSize_def)

lemma page_of_Itoa:
  "in_int64 (int n) \<Longrightarrow>
     page_of all (p\<lparr>pg_Cursor := Itoa (int n)\<rparr>) = Inr (page_slice all n (nat (page_Size p)))"
  by (simp add: page_of_def Atoi_Itoa Itoa_nonempty page_Size_def)

text \<open>From an offset, following the cursors yields the rest of the list.\<close>

lemma follow_from:
  assumes "in_int64 (int (length all))" "n \<le> length all" "length all - n < fuel"
    and "page_of all p = Inr (page_slice all n (nat (page_Size p)))"
  shows "follow fuel (page_of all) p = Some (Inr (drop n all))"
  using assms(2-)
proof (induction fuel arbitrary: n p)
  case (Suc fuel)
  let ?s = "nat (page_Size p)" and ?r = "page_slice all n (nat (page_Size p))"
  have s: "0 < ?s" using page_Size_bounds(1) [of p] by simp
  show ?case
  proof (cases "n + ?s < length all")
    case True
    have psz: "page_Size (p\<lparr>pg_Cursor := c\<rparr>) = page_Size p" for c
      by (simp add: page_Size_def)
    have "in_int64 (int (n + ?s))"
      using True assms(1) by (auto simp: in_int64_def)
    then have "follow fuel (page_of all) (p\<lparr>pg_Cursor := Itoa (int (n + ?s))\<rparr>) = Some (Inr (drop (n + ?s) all))"
      using True s Suc.prems page_of_Itoa [of "n + ?s" all p] psz
      by (intro Suc.IH) (auto simp: algebra_simps)
    moreover have "take ?s (drop n all) @ drop (n + ?s) all = drop n all"
      by (metis append_take_drop_id drop_drop add.commute)
    ultimately show ?thesis
      using Suc.prems True s by (simp add: page_slice_def Let_def Itoa_nonempty min_def)
  next
    case False
    then show ?thesis
      using Suc.prems s by (auto simp: page_slice_def Let_def min_def)
  qed
qed simp

section \<open>Properties\<close>

text \<open>
  C24. Following the cursors of the in-memory stores from an empty cursor visits every item of the
  listing once, in order, whatever page size is asked for, and ends after at most one fetch per
  item and one more.
\<close>

theorem paging_complete:
  assumes "in_int64 (int (length all))" "pg_Cursor p = []" "length all < fuel"
  shows "follow fuel (page_of all) p = Some (Inr all)"
  using follow_from [OF assms(1), of 0 fuel p] assms(2,3) by (simp add: page_of_def)

theorem paging_complete_witness:
  "follow 4 (page_of [CHR ''a'', CHR ''b'', CHR ''c'']) \<lparr>pg_Cursor = [], pg_Limit = 2\<rparr> = Some (Inr ''abc'')"
  using paging_complete [of "''abc''" "\<lparr>pg_Cursor = [], pg_Limit = 2\<rparr>" 4] by (simp add: in_int64_def)

end
