(* ===== verification/Mdm_Queue.thy ===== *)
theory Mdm_Queue
  imports Mdm_Command Paging "HOL-Library.AList"
begin

text \<open>
  The command queue: its types (\<open>mdmprotocol/mdm/queue.go\<close>) and the in-memory implementation
  (\<open>storage/inmem/queue.go\<close>). Every operation runs under the queue's mutex, so it is one step
  on the queue's state. The contract that \<open>mdm.CommandQueue\<close> documents is the locale
  \<open>command_queue\<close>, which the in-memory queue is shown to satisfy.
\<close>

section \<open>Types\<close>

datatype cstate = StatePending | StateSent | StateAcknowledged | StateFailed | StateCancelled

definition Terminal :: "cstate \<Rightarrow> bool" where
  "Terminal s = (s = StateAcknowledged \<or> s = StateFailed \<or> s = StateCancelled)"

record child_result =
  cd_Name :: string
  cd_Target :: string
  cd_Status :: int
  cd_OriginalError :: string
  cd_Items :: "item list"

record qresult =
  rs_Status :: int
  rs_OriginalError :: string
  rs_Items :: "item list"
  rs_Children :: "child_result list"
  rs_ReceivedAt :: time

record qcmd =
  q_Command :: mcmd
  q_Seq :: int
  q_State :: cstate
  q_EnqueuedAt :: time
  q_LastSentAt :: time
  q_SentMsgID :: string
  q_Attempts :: int
  q_Result :: "qresult option"
  q_CompletedAt :: time

abbreviation q_ID :: "qcmd \<Rightarrow> string" where
  "q_ID c \<equiv> mc_ID (q_Command c)"

record query =
  qy_States :: "cstate list"
  qy_Internal :: "bool option"
  qy_Scope :: scope

record delivery =
  dl_CommandID :: string
  dl_MsgID :: string
  dl_At :: time

text \<open>
  \<open>byDev\<close> is a Go map from device to commands; its association list has the order in which
  \<open>Prune\<close> ranges over it. A device without an entry has no commands, and one without a
  sequence number has number 0.
\<close>

record queue =
  qs_byDev :: "(string \<times> qcmd list) list"
  qs_nextID :: int
  qs_seq :: "string \<Rightarrow> int"

definition NewQueue :: queue where
  "NewQueue = \<lparr>qs_byDev = [], qs_nextID = 0, qs_seq = (\<lambda>_. 0)\<rparr>"

definition dev_cmds :: "queue \<Rightarrow> string \<Rightarrow> qcmd list" where
  "dev_cmds q d = (case map_of (qs_byDev q) d of None \<Rightarrow> [] | Some cs \<Rightarrow> cs)"

definition set_cmds :: "string \<Rightarrow> qcmd list \<Rightarrow> queue \<Rightarrow> queue" where
  "set_cmds d cs q = q\<lparr>qs_byDev := AList.update d cs (qs_byDev q)\<rparr>"

section \<open>Operations\<close>

definition Enqueue :: "queue \<Rightarrow> string \<Rightarrow> mcmd option \<Rightarrow> time \<Rightarrow> queue \<times> qcmd result" where
  "Enqueue q deviceID co at =
     (if deviceID = [] then (q, Inl [Mdm_ErrNotFound])
      else case mdm_Validate co of
          Inl e \<Rightarrow> (q, Inl e)
        | Inr _ \<Rightarrow>
            let cmd = the co;
                q1 = (if mc_ID cmd = [] then q\<lparr>qs_nextID := qs_nextID q + 1\<rparr> else q);
                id' = (if mc_ID cmd = [] then ''cmd-'' @ Itoa (qs_nextID q1) else mc_ID cmd)
            in if list_ex (\<lambda>c. q_ID c = id') (dev_cmds q deviceID) then (q1, Inl [Mdm_ErrConflict])
               else let n = qs_seq q deviceID + 1;
                        qc = \<lparr>q_Command = cmd\<lparr>mc_ID := id'\<rparr>, q_Seq = n, q_State = StatePending,
                              q_EnqueuedAt = at, q_LastSentAt = 0, q_SentMsgID = [], q_Attempts = 0,
                              q_Result = None, q_CompletedAt = 0\<rparr>
                    in (set_cmds deviceID (dev_cmds q deviceID @ [qc])
                          (q1\<lparr>qs_seq := (qs_seq q1)(deviceID := n)\<rparr>), Inr qc))"

definition deliverable :: "qcmd \<Rightarrow> bool" where
  "deliverable c = (q_State c = StatePending \<or> q_State c = StateSent)"

text \<open>The loop of \<open>Deliverable\<close>: it stops once the output has reached a positive limit.\<close>

fun deliverable_loop :: "int \<Rightarrow> nat \<Rightarrow> qcmd list \<Rightarrow> qcmd list" where
  "deliverable_loop limit n [] = []"
| "deliverable_loop limit n (c # cs) =
     (if deliverable c
      then c # (if 0 < limit \<and> limit \<le> int (n + 1) then [] else deliverable_loop limit (n + 1) cs)
      else deliverable_loop limit n cs)"

definition Deliverable :: "queue \<Rightarrow> string \<Rightarrow> int \<Rightarrow> qcmd list result" where
  "Deliverable q deviceID limit = Inr (deliverable_loop limit 0 (dev_cmds q deviceID))"

text \<open>Changing one command of a device, the first with the identifier.\<close>

fun upd_first :: "string \<Rightarrow> (qcmd \<Rightarrow> qcmd) \<Rightarrow> qcmd list \<Rightarrow> qcmd list" where
  "upd_first i f [] = []"
| "upd_first i f (c # cs) = (if q_ID c = i then f c # cs else c # upd_first i f cs)"

text \<open>\<open>MarkSent\<close> finds commands through an index in which the last one with an identifier wins.\<close>

definition upd_last :: "string \<Rightarrow> (qcmd \<Rightarrow> qcmd) \<Rightarrow> qcmd list \<Rightarrow> qcmd list" where
  "upd_last i f cs = rev (upd_first i f (rev cs))"

definition mark :: "delivery \<Rightarrow> qcmd \<Rightarrow> qcmd" where
  "mark d c = c\<lparr>q_State := StateSent, q_LastSentAt := dl_At d, q_SentMsgID := dl_MsgID d,
     q_Attempts := q_Attempts c + 1\<rparr>"

fun mark_loop :: "delivery list \<Rightarrow> qcmd list \<Rightarrow> qcmd list \<times> unit result" where
  "mark_loop [] cs = (cs, Inr ())"
| "mark_loop (d # ds) cs =
     (if dl_CommandID d \<notin> q_ID ` set cs then (cs, Inl [Mdm_ErrNotFound])
      else mark_loop ds (upd_last (dl_CommandID d) (mark d) cs))"

definition MarkSent :: "queue \<Rightarrow> string \<Rightarrow> delivery list \<Rightarrow> queue \<times> unit result" where
  "MarkSent q deviceID deliveries =
     (case mark_loop deliveries (dev_cmds q deviceID) of (cs, r) \<Rightarrow>
        (if deviceID \<in> fst ` set (qs_byDev q) then set_cmds deviceID cs q else q, r))"

definition store :: "qresult \<Rightarrow> qcmd \<Rightarrow> qcmd" where
  "store r c = c\<lparr>q_Result := Some r, q_CompletedAt := rs_ReceivedAt r,
     q_State := (if Success (rs_Status r) then StateAcknowledged else StateFailed)\<rparr>"

definition StoreResult :: "queue \<Rightarrow> string \<Rightarrow> string \<Rightarrow> qresult \<Rightarrow> queue \<times> unit result" where
  "StoreResult q deviceID commandID r =
     (if commandID \<notin> q_ID ` set (dev_cmds q deviceID) then (q, Inl [Mdm_ErrNotFound])
      else (set_cmds deviceID (upd_first commandID (store r) (dev_cmds q deviceID)) q, Inr ()))"

definition queue_Get :: "queue \<Rightarrow> string \<Rightarrow> string \<Rightarrow> qcmd result" where
  "queue_Get q deviceID commandID =
     (case find (\<lambda>c. q_ID c = commandID) (dev_cmds q deviceID) of
        None \<Rightarrow> Inl [Mdm_ErrNotFound]
      | Some c \<Rightarrow> Inr c)"

definition matches :: "query \<Rightarrow> qcmd \<Rightarrow> bool" where
  "matches qy c =
     ((case qy_Internal qy of None \<Rightarrow> True | Some b \<Rightarrow> mc_Internal (q_Command c) = b)
      \<and> (qy_Scope qy = [] \<or> mc_Scope (q_Command c) = qy_Scope qy)
      \<and> (qy_States qy = [] \<or> q_State c \<in> set (qy_States qy)))"

definition queue_List :: "queue \<Rightarrow> string \<Rightarrow> query \<Rightarrow> page \<Rightarrow> qcmd page_result result" where
  "queue_List q deviceID qy p = page_of (filter (matches qy) (dev_cmds q deviceID)) p"

definition cancellable :: "string list \<Rightarrow> qcmd \<Rightarrow> bool" where
  "cancellable ids c = (q_ID c \<in> set ids \<and> \<not> Terminal (q_State c))"

definition Cancel :: "queue \<Rightarrow> string \<Rightarrow> string list \<Rightarrow> time \<Rightarrow> queue \<times> nat" where
  "Cancel q deviceID ids at =
     (let cs = dev_cmds q deviceID;
          cs' = map (\<lambda>c. if cancellable ids c
                         then c\<lparr>q_State := StateCancelled, q_CompletedAt := at\<rparr> else c) cs
      in (if deviceID \<in> fst ` set (qs_byDev q) then set_cmds deviceID cs' q else q,
          length (filter (cancellable ids) cs)))"

definition prunable :: "time \<Rightarrow> qcmd \<Rightarrow> bool" where
  "prunable before' c =
     (Terminal (q_State c) \<and> \<not> IsZero (q_CompletedAt c) \<and> q_CompletedAt c < before')"

fun prune_cmds :: "time \<Rightarrow> int \<Rightarrow> nat \<Rightarrow> qcmd list \<Rightarrow> qcmd list \<times> nat" where
  "prune_cmds before' limit n [] = ([], n)"
| "prune_cmds before' limit n (c # cs) =
     (if prunable before' c \<and> (limit \<le> 0 \<or> int n < limit) then prune_cmds before' limit (n + 1) cs
      else case prune_cmds before' limit n cs of (kept, m) \<Rightarrow> (c # kept, m))"

fun prune_devs :: "time \<Rightarrow> int \<Rightarrow> nat \<Rightarrow> (string \<times> qcmd list) list
    \<Rightarrow> (string \<times> qcmd list) list \<times> nat" where
  "prune_devs before' limit n [] = ([], n)"
| "prune_devs before' limit n ((d, cs) # rest) =
     (case prune_cmds before' limit n cs of (kept, m) \<Rightarrow>
        case prune_devs before' limit m rest of (rest', k) \<Rightarrow> ((d, kept) # rest', k))"

definition Prune :: "queue \<Rightarrow> time \<Rightarrow> int \<Rightarrow> queue \<times> nat" where
  "Prune q before' limit =
     (case prune_devs before' limit 0 (qs_byDev q) of (devs, n) \<Rightarrow> (q\<lparr>qs_byDev := devs\<rparr>, n))"

section \<open>The invariant\<close>

definition cmds_inv :: "int \<Rightarrow> qcmd list \<Rightarrow> bool" where
  "cmds_inv n cs =
     (distinct (map q_ID cs) \<and> sorted_wrt (<) (map q_Seq cs)
      \<and> (\<forall>c \<in> set cs. 0 < q_Seq c \<and> q_Seq c \<le> n \<and> q_ID c \<noteq> [] \<and> mcmd_ok (q_Command c)
            \<and> 0 \<le> q_Attempts c))"

definition queue_inv :: "queue \<Rightarrow> bool" where
  "queue_inv q =
     (distinct (map fst (qs_byDev q)) \<and> (\<forall>d. 0 \<le> qs_seq q d)
      \<and> (\<forall>(d, cs) \<in> set (qs_byDev q). cmds_inv (qs_seq q d) cs))"

lemma cmds_inv_Nil [simp]: "cmds_inv n []"
  by (simp add: cmds_inv_def)

lemma queue_inv_iff:
  "queue_inv q \<longleftrightarrow> distinct (map fst (qs_byDev q)) \<and> (\<forall>d. 0 \<le> qs_seq q d)
     \<and> (\<forall>d. cmds_inv (qs_seq q d) (dev_cmds q d))"
proof (cases "distinct (map fst (qs_byDev q))")
  case True
  have "(\<forall>(d, cs) \<in> set (qs_byDev q). cmds_inv (qs_seq q d) cs) \<longleftrightarrow>
      (\<forall>d cs. map_of (qs_byDev q) d = Some cs \<longrightarrow> cmds_inv (qs_seq q d) cs)"
    using True by auto
  also have "\<dots> \<longleftrightarrow> (\<forall>d. cmds_inv (qs_seq q d) (dev_cmds q d))"
    by (auto simp: dev_cmds_def split: option.split)
  finally show ?thesis
    using True by (simp add: queue_inv_def)
qed (simp add: queue_inv_def)

lemma dev_cmds_set [simp]: "dev_cmds (set_cmds d cs q) d' = (if d' = d then cs else dev_cmds q d')"
  by (simp add: dev_cmds_def set_cmds_def AList.update_conv')

lemma set_cmds_simps [simp]:
  "qs_seq (set_cmds d cs q) = qs_seq q"
  "qs_nextID (set_cmds d cs q) = qs_nextID q"
  "distinct (map fst (qs_byDev q)) \<Longrightarrow> distinct (map fst (qs_byDev (set_cmds d cs q)))"
  by (simp_all add: set_cmds_def distinct_update)

lemma dev_cmds_upd [simp]:
  "dev_cmds (q\<lparr>qs_nextID := n\<rparr>) d = dev_cmds q d" "dev_cmds (q\<lparr>qs_seq := sq\<rparr>) d = dev_cmds q d"
  by (simp_all add: dev_cmds_def)

text \<open>Changes to the delivery state of commands keep their identity and order.\<close>

definition same_core :: "qcmd \<Rightarrow> qcmd \<Rightarrow> bool" where
  "same_core c c' = (q_Command c' = q_Command c \<and> q_Seq c' = q_Seq c \<and> q_Attempts c \<le> q_Attempts c')"

lemma cmds_inv_core:
  assumes "list_all2 same_core cs cs'" "cmds_inv n cs"
  shows "cmds_inv n cs'"
proof -
  have "map q_ID cs' = map q_ID cs" "map q_Seq cs' = map q_Seq cs"
    using assms(1) by (induction rule: list_all2_induct) (auto simp: same_core_def)
  moreover have "\<forall>c' \<in> set cs'. 0 < q_Seq c' \<and> q_Seq c' \<le> n \<and> q_ID c' \<noteq> [] \<and> mcmd_ok (q_Command c')
      \<and> 0 \<le> q_Attempts c'"
    using assms unfolding cmds_inv_def
    by (induction rule: list_all2_induct) (auto simp: same_core_def)
  ultimately show ?thesis
    using assms(2) by (simp add: cmds_inv_def)
qed

lemma same_core_refl [simp]: "same_core c c" "list_all2 same_core cs cs"
  by (simp_all add: same_core_def list_all2_refl)

lemma upd_first_core: "(\<And>c. same_core c (f c)) \<Longrightarrow> list_all2 same_core cs (upd_first i f cs)"
  by (induction cs) auto

lemma upd_last_core: "(\<And>c. same_core c (f c)) \<Longrightarrow> list_all2 same_core cs (upd_last i f cs)"
  using upd_first_core [of f "rev cs" i] list_all2_rev [of same_core cs "rev (upd_first i f (rev cs))"]
  by (simp add: upd_last_def)

text \<open>With distinct identifiers, the first and the last command with one are the same.\<close>

lemma upd_first_map:
  "distinct (map q_ID cs) \<Longrightarrow> upd_first i f cs = map (\<lambda>c. if q_ID c = i then f c else c) cs"
proof (induction cs)
  case (Cons c cs)
  then show ?case
    by (auto simp: image_iff intro!: map_idI [symmetric])
qed simp

lemma upd_last_map:
  "distinct (map q_ID cs) \<Longrightarrow> upd_last i f cs = map (\<lambda>c. if q_ID c = i then f c else c) cs"
  by (simp add: upd_last_def upd_first_map rev_map [symmetric])

section \<open>What each operation does\<close>

lemma queue_inv_set:
  "queue_inv q \<Longrightarrow> cmds_inv (qs_seq q d) cs \<Longrightarrow> queue_inv (set_cmds d cs q)"
  by (auto simp: queue_inv_iff)

lemma queue_inv_cmds: "queue_inv q \<Longrightarrow> cmds_inv (qs_seq q d) (dev_cmds q d)"
  by (simp add: queue_inv_iff)

lemma queue_inv_nextID [simp]: "queue_inv (q\<lparr>qs_nextID := n\<rparr>) = queue_inv q"
  by (simp add: queue_inv_iff)

lemma cmds_inv_snoc:
  assumes "cmds_inv n cs" "q_ID c \<notin> q_ID ` set cs" "q_Seq c = n + 1" "0 \<le> n"
    and "q_ID c \<noteq> []" "mcmd_ok (q_Command c)" "0 \<le> q_Attempts c"
  shows "cmds_inv (n + 1) (cs @ [c])"
  using assms by (fastforce simp: cmds_inv_def sorted_wrt_append)

lemma cmds_inv_mono: "cmds_inv n cs \<Longrightarrow> n \<le> m \<Longrightarrow> cmds_inv m cs"
  by (auto simp: cmds_inv_def)

lemma mcmd_ok_ID [simp]: "mcmd_ok (c\<lparr>mc_ID := i\<rparr>) = mcmd_ok c"
  by (simp add: mcmd_ok_def)

text \<open>A new command: appended in state pending with the next number, the rest untouched.\<close>

lemma Enqueue_ok:
  assumes "Enqueue q d co at = (q', Inr qc)" "queue_inv q"
  shows "queue_inv q'" "dev_cmds q' = (dev_cmds q)(d := dev_cmds q d @ [qc])"
    "\<exists>cmd. co = Some cmd \<and> q_Command qc = cmd\<lparr>mc_ID := q_ID qc\<rparr> \<and> (mc_ID cmd \<noteq> [] \<longrightarrow> q_ID qc = mc_ID cmd)"
    "q_State qc = StatePending" "q_Seq qc = qs_seq q d + 1" "q_EnqueuedAt qc = at"
proof -
  obtain cmd where co: "co = Some cmd" and ok: "mcmd_ok cmd"
    using assms(1) by (cases co) (auto simp: Enqueue_def mdm_Validate_def [of None]
        mdm_Validate_correct [symmetric] split: if_splits sum.splits)
  have valid: "mdm_Validate (Some cmd) = Inr ()"
    using ok by (simp add: mdm_Validate_correct)
  let ?id = "if mc_ID cmd = [] then ''cmd-'' @ Itoa (qs_nextID q + 1) else mc_ID cmd"
  have qc: "qc = \<lparr>q_Command = cmd\<lparr>mc_ID := ?id\<rparr>, q_Seq = qs_seq q d + 1, q_State = StatePending,
      q_EnqueuedAt = at, q_LastSentAt = 0, q_SentMsgID = [], q_Attempts = 0, q_Result = None,
      q_CompletedAt = 0\<rparr>" and new: "q_ID qc \<notin> q_ID ` set (dev_cmds q d)"
    using assms(1) by (auto simp: Enqueue_def valid co Let_def list_ex_iff split: if_splits)
  have q': "dev_cmds q' = (dev_cmds q)(d := dev_cmds q d @ [qc])"
    "qs_seq q' = (qs_seq q)(d := qs_seq q d + 1)" "distinct (map fst (qs_byDev q'))"
    using assms by (auto simp: Enqueue_def valid co Let_def fun_eq_iff queue_inv_def set_cmds_def
        distinct_update dev_cmds_def update_conv' split: if_splits)
  have "cmds_inv (qs_seq q d + 1) (dev_cmds q d @ [qc])"
    using queue_inv_cmds [OF assms(2)] assms(2) new ok
    by (intro cmds_inv_snoc) (auto simp: qc queue_inv_def)
  then show "queue_inv q'"
    using assms(2) q' by (auto simp: queue_inv_iff)
  show "dev_cmds q' = (dev_cmds q)(d := dev_cmds q d @ [qc])" by (rule q')
  show "\<exists>cmd. co = Some cmd \<and> q_Command qc = cmd\<lparr>mc_ID := q_ID qc\<rparr> \<and> (mc_ID cmd \<noteq> [] \<longrightarrow> q_ID qc = mc_ID cmd)"
    "q_State qc = StatePending" "q_Seq qc = qs_seq q d + 1" "q_EnqueuedAt qc = at"
    by (simp_all add: co qc)
qed

lemma Enqueue_err:
  assumes "Enqueue q d co at = (q', Inl e)" "queue_inv q"
  shows "queue_inv q' \<and> dev_cmds q' = dev_cmds q"
  using assms by (auto simp: Enqueue_def Let_def fun_eq_iff split: if_splits sum.splits)

lemma deliverable_loop_spec:
  "0 < limit \<Longrightarrow> int n < limit \<Longrightarrow>
     deliverable_loop limit n cs = take (nat limit - n) (filter deliverable cs)"
  "limit \<le> 0 \<Longrightarrow> deliverable_loop limit n cs = filter deliverable cs"
proof -
  show "deliverable_loop limit n cs = take (nat limit - n) (filter deliverable cs)"
    if "0 < limit" "int n < limit"
    using that
  proof (induction cs arbitrary: n)
    case (Cons c cs)
    have "nat limit - n = Suc (nat limit - Suc n)"
      using Cons.prems by linarith
    moreover have "nat limit - Suc n = 0 \<longleftrightarrow> limit \<le> int (n + 1)"
      using Cons.prems by linarith
    ultimately show ?case
      using Cons by simp
  qed simp
  show "deliverable_loop limit n cs = filter deliverable cs" if "limit \<le> 0"
    using that by (induction cs arbitrary: n) auto
qed

lemma Deliverable_spec:
  "Deliverable q d limit =
     Inr ((if 0 < limit then take (nat limit) else id) (filter deliverable (dev_cmds q d)))"
  by (simp add: Deliverable_def deliverable_loop_spec)

text \<open>The effect of a list of deliveries on one command.\<close>

definition mark_with :: "delivery list \<Rightarrow> qcmd \<Rightarrow> qcmd" where
  "mark_with ds c = fold (\<lambda>d c. if q_ID c = dl_CommandID d then mark d c else c) ds c"

lemma mark_core: "same_core c (mark d c)"
  by (simp add: same_core_def mark_def)

lemma store_core: "same_core c (store r c)"
  by (simp add: same_core_def store_def)

lemma same_core_trans: "same_core a b \<Longrightarrow> same_core b c \<Longrightarrow> same_core a c"
  by (auto simp: same_core_def)

lemma mark_loop_core: "list_all2 same_core cs (fst (mark_loop ds cs))"
proof (induction ds arbitrary: cs)
  case (Cons d ds)
  let ?cs = "upd_last (dl_CommandID d) (mark d) cs"
  have "list_all2 same_core cs ?cs"
    by (rule upd_last_core) (rule mark_core)
  then have "list_all2 same_core cs (fst (mark_loop ds ?cs))"
    using list_all2_trans [of same_core same_core same_core cs ?cs] same_core_trans Cons [of ?cs] by blast
  then show ?case by simp
qed simp

lemma core_ids: "list_all2 same_core cs cs' \<Longrightarrow> map q_ID cs' = map q_ID cs"
  by (induction rule: list_all2_induct) (auto simp: same_core_def)

lemma mark_loop_ok:
  assumes "distinct (map q_ID cs)" "dl_CommandID ` set ds \<subseteq> q_ID ` set cs"
  shows "mark_loop ds cs = (map (mark_with ds) cs, Inr ())"
  using assms
proof (induction ds arbitrary: cs)
  case (Cons d ds)
  let ?cs = "upd_last (dl_CommandID d) (mark d) cs"
  have ids: "map q_ID ?cs = map q_ID cs"
    by (rule core_ids [OF upd_last_core [OF mark_core]])
  then have "q_ID ` set ?cs = q_ID ` set cs"
    by (metis list.set_map)
  then have "mark_loop ds ?cs = (map (mark_with ds) ?cs, Inr ())"
    using Cons ids by (intro Cons.IH) auto
  then show ?case
    using Cons.prems by (simp add: upd_last_map mark_with_def comp_def)
qed (simp add: mark_with_def [abs_def])

lemma not_in_byDev: "d \<notin> fst ` set (qs_byDev q) \<Longrightarrow> dev_cmds q d = []"
  using map_of_eq_None_iff [of "qs_byDev q" d] by (simp add: dev_cmds_def)

lemma MarkSent_inv: "queue_inv q \<Longrightarrow> queue_inv (fst (MarkSent q d ds))"
  using cmds_inv_core [OF mark_loop_core, of "qs_seq q d" "dev_cmds q d" ds] queue_inv_cmds [of q d]
  by (simp add: MarkSent_def queue_inv_set case_prod_beta)

lemma MarkSent_ok:
  assumes "queue_inv q" "dl_CommandID ` set ds \<subseteq> q_ID ` set (dev_cmds q d)"
  shows "snd (MarkSent q d ds) = Inr ()"
    "dev_cmds (fst (MarkSent q d ds)) = (dev_cmds q)(d := map (mark_with ds) (dev_cmds q d))"
proof -
  have "mark_loop ds (dev_cmds q d) = (map (mark_with ds) (dev_cmds q d), Inr ())"
    using queue_inv_cmds [OF assms(1), of d] assms(2) by (simp add: mark_loop_ok cmds_inv_def)
  then show "snd (MarkSent q d ds) = Inr ()"
    "dev_cmds (fst (MarkSent q d ds)) = (dev_cmds q)(d := map (mark_with ds) (dev_cmds q d))"
    by (auto simp: MarkSent_def fun_eq_iff not_in_byDev)
qed

lemma StoreResult_inv: "queue_inv q \<Longrightarrow> queue_inv (fst (StoreResult q d i r))"
  using cmds_inv_core [OF upd_first_core [where f = "store r" and i = i and cs = "dev_cmds q d"]]
    store_core queue_inv_cmds [of q d]
  by (auto simp: StoreResult_def queue_inv_set)

lemma StoreResult_ok:
  assumes "queue_inv q" "i \<in> q_ID ` set (dev_cmds q d)"
  shows "snd (StoreResult q d i r) = Inr ()"
    "dev_cmds (fst (StoreResult q d i r)) =
       (dev_cmds q)(d := map (\<lambda>c. if q_ID c = i then store r c else c) (dev_cmds q d))"
  using assms queue_inv_cmds [OF assms(1), of d]
  by (auto simp: StoreResult_def fun_eq_iff upd_first_map cmds_inv_def)

lemma StoreResult_err:
  "i \<notin> q_ID ` set (dev_cmds q d) \<Longrightarrow> StoreResult q d i r = (q, Inl [Mdm_ErrNotFound])"
  by (simp add: StoreResult_def)

lemma Cancel_inv: "queue_inv q \<Longrightarrow> queue_inv (fst (Cancel q d ids at))"
proof -
  assume inv: "queue_inv q"
  have "list_all2 same_core (dev_cmds q d) (map (\<lambda>c. if cancellable ids c
      then c\<lparr>q_State := StateCancelled, q_CompletedAt := at\<rparr> else c) (dev_cmds q d))"
    by (simp add: list_all2_map2 same_core_def list_all2_refl)
  then show ?thesis
    using cmds_inv_core queue_inv_cmds [OF inv] inv by (auto simp: Cancel_def Let_def queue_inv_set)
qed

text \<open>Pruning only drops commands; those that stay keep their order.\<close>

lemma prune_cmds_set: "set (fst (prune_cmds b l n cs)) \<subseteq> set cs"
  by (induction cs arbitrary: n) (auto simp: case_prod_beta)

lemma cmds_inv_Cons:
  "cmds_inv n (c # cs) \<longleftrightarrow>
     (0 < q_Seq c \<and> q_Seq c \<le> n \<and> q_ID c \<noteq> [] \<and> mcmd_ok (q_Command c) \<and> 0 \<le> q_Attempts c)
     \<and> (\<forall>c' \<in> set cs. q_ID c' \<noteq> q_ID c \<and> q_Seq c < q_Seq c') \<and> cmds_inv n cs"
  by (auto simp: cmds_inv_def image_iff)

lemma prune_cmds_inv: "cmds_inv m cs \<Longrightarrow> cmds_inv m (fst (prune_cmds b l n cs))"
proof (induction cs arbitrary: n)
  case (Cons c cs)
  then show ?case
    using prune_cmds_set [of b l n cs] by (auto simp: cmds_inv_Cons case_prod_beta)
qed simp

lemma prune_devs_keys: "map fst (fst (prune_devs b l n devs)) = map fst devs"
proof (induction devs arbitrary: n)
  case (Cons dv devs)
  then show ?case by (cases dv) (simp add: case_prod_beta)
qed simp

lemma prune_devs_inv:
  "\<forall>(d, cs) \<in> set devs. cmds_inv (sq d) cs \<Longrightarrow>
     \<forall>(d, cs) \<in> set (fst (prune_devs b l n devs)). cmds_inv (sq d) cs"
proof (induction devs arbitrary: n)
  case (Cons dv devs)
  then show ?case by (cases dv) (simp add: case_prod_beta prune_cmds_inv)
qed simp

lemma Prune_inv: "queue_inv q \<Longrightarrow> queue_inv (fst (Prune q b l))"
  using prune_devs_inv [of "qs_byDev q" "qs_seq q" b l 0]
  by (simp add: queue_inv_def Prune_def case_prod_beta prune_devs_keys)

section \<open>The contract\<close>

text \<open>
  \<open>mdm.CommandQueue\<close> as the engine calls it: an interface value is a record of functions over
  the state of the implementation.
\<close>

record 'q queue_ops =
  qo_Enqueue :: "'q \<Rightarrow> string \<Rightarrow> mcmd option \<Rightarrow> time \<Rightarrow> 'q \<times> qcmd result"
  qo_Deliverable :: "'q \<Rightarrow> string \<Rightarrow> int \<Rightarrow> qcmd list result"
  qo_MarkSent :: "'q \<Rightarrow> string \<Rightarrow> delivery list \<Rightarrow> 'q \<times> unit result"
  qo_StoreResult :: "'q \<Rightarrow> string \<Rightarrow> string \<Rightarrow> qresult \<Rightarrow> 'q \<times> unit result"

definition inmem_queue :: "queue queue_ops" where
  "inmem_queue = \<lparr>qo_Enqueue = Enqueue, qo_Deliverable = Deliverable, qo_MarkSent = MarkSent,
     qo_StoreResult = StoreResult\<rparr>"

text \<open>
  The promises of the interface, over the commands \<open>view\<close> shows for a device in Seq order, all of
  which pass the structural check: a
  stored command is pending with the next number; Deliverable returns the pending and sent ones
  in Seq order up to the limit; MarkSent and StoreResult change the commands named and no other.
\<close>

locale command_queue =
  fixes Q :: "'q queue_ops"
    and inv :: "'q \<Rightarrow> bool"
    and view :: "'q \<Rightarrow> string \<Rightarrow> qcmd list"
  assumes view_ordered:
      "inv q \<Longrightarrow> distinct (map q_ID (view q d)) \<and> sorted_wrt (<) (map q_Seq (view q d))"
    and view_valid:
      "inv q \<Longrightarrow> c \<in> set (view q d) \<Longrightarrow> mcmd_ok (q_Command c) \<and> q_ID c \<noteq> []"
    and enqueue_ok:
      "inv q \<Longrightarrow> qo_Enqueue Q q d co at = (q', Inr qc) \<Longrightarrow>
         inv q' \<and> view q' = (view q)(d := view q d @ [qc]) \<and> q_State qc = StatePending
         \<and> (\<exists>cmd. co = Some cmd \<and> q_Command qc = cmd\<lparr>mc_ID := q_ID qc\<rparr>
              \<and> (mc_ID cmd \<noteq> [] \<longrightarrow> q_ID qc = mc_ID cmd))"
    and enqueue_err:
      "inv q \<Longrightarrow> qo_Enqueue Q q d co at = (q', Inl e) \<Longrightarrow> inv q' \<and> view q' = view q"
    and deliverable_ok:
      "inv q \<Longrightarrow> 0 < n \<Longrightarrow> qo_Deliverable Q q d n = Inr (take (nat n) (filter deliverable (view q d)))"
    and mark_ok:
      "inv q \<Longrightarrow> dl_CommandID ` set ds \<subseteq> q_ID ` set (view q d) \<Longrightarrow>
         \<exists>q'. qo_MarkSent Q q d ds = (q', Inr ()) \<and> inv q'
           \<and> view q' = (view q)(d := map (mark_with ds) (view q d))"
    and store_ok:
      "inv q \<Longrightarrow> i \<in> q_ID ` set (view q d) \<Longrightarrow>
         \<exists>q'. qo_StoreResult Q q d i r = (q', Inr ()) \<and> inv q'
           \<and> view q' = (view q)(d := map (\<lambda>c. if q_ID c = i then store r c else c) (view q d))"
    and store_err:
      "inv q \<Longrightarrow> i \<notin> q_ID ` set (view q d) \<Longrightarrow>
         \<exists>q'. qo_StoreResult Q q d i r = (q', Inl [Mdm_ErrNotFound]) \<and> inv q' \<and> view q' = view q"
begin

text \<open>A new command is delivered after everything that was waiting.\<close>

lemma enqueue_delivered_last:
  assumes "inv q" "qo_Enqueue Q q d co at = (q', Inr qc)" "0 < n" "length (filter deliverable (view q d)) < nat n"
  shows "qo_Deliverable Q q' d n = Inr (filter deliverable (view q d) @ [qc])"
  using enqueue_ok [OF assms(1,2)] deliverable_ok [of q' n d] assms(3,4)
  by (auto simp: deliverable_def)

text \<open>An answered command is no longer delivered, and no other command is affected.\<close>

lemma answered_not_delivered:
  assumes "inv q" "i \<in> q_ID ` set (view q d)" "0 < n" "length (view q d) \<le> nat n"
  shows "\<exists>q'. qo_StoreResult Q q d i r = (q', Inr ()) \<and> inv q'
    \<and> qo_Deliverable Q q' d n = Inr (filter (\<lambda>c. deliverable c \<and> q_ID c \<noteq> i) (view q d))"
proof -
  obtain q' where q': "qo_StoreResult Q q d i r = (q', Inr ())" "inv q'"
    "view q' = (view q)(d := map (\<lambda>c. if q_ID c = i then store r c else c) (view q d))"
    using store_ok [OF assms(1,2)] by blast
  have "filter deliverable (map (\<lambda>c. if q_ID c = i then store r c else c) cs)
      = filter (\<lambda>c. deliverable c \<and> q_ID c \<noteq> i) cs" for cs
    by (induction cs) (auto simp: deliverable_def store_def)
  then have "qo_Deliverable Q q' d n = Inr (filter (\<lambda>c. deliverable c \<and> q_ID c \<noteq> i) (view q d))"
    using deliverable_ok [OF q'(2) assms(3)] q'(3) assms(4)
    by (simp add: order_trans [OF length_filter_le])
  then show ?thesis
    using q' by blast
qed

text \<open>Marking as sent does not take a command out of delivery.\<close>

lemma sent_still_delivered:
  assumes "inv q" "dl_CommandID ` set ds \<subseteq> q_ID ` set (filter deliverable (view q d))"
  shows "\<exists>q'. qo_MarkSent Q q d ds = (q', Inr ()) \<and> inv q'
    \<and> map q_ID (filter deliverable (view q' d)) = map q_ID (filter deliverable (view q d))"
proof -
  have sub: "dl_CommandID ` set ds \<subseteq> q_ID ` set (view q d)"
    using assms(2) by auto
  obtain q' where q': "qo_MarkSent Q q d ds = (q', Inr ())" "inv q'"
    "view q' = (view q)(d := map (mark_with ds) (view q d))"
    using mark_ok [OF assms(1) sub] by blast
  have ids: "q_ID (mark_with ds c) = q_ID c" for c ds
    by (induction ds arbitrary: c) (simp_all add: mark_with_def mark_def)
  have "deliverable (mark_with ds c) = deliverable c" if "c \<in> set (view q d)" for c
  proof (cases "deliverable c")
    case True
    then have "deliverable (mark_with es c)" for es
      by (induction es arbitrary: c) (simp_all add: mark_with_def deliverable_def mark_def)
    then show ?thesis using True by simp
  next
    case False
    have "q_ID c \<notin> dl_CommandID ` set ds"
    proof
      assume "q_ID c \<in> dl_CommandID ` set ds"
      then obtain c' where c': "c' \<in> set (view q d)" "deliverable c'" "q_ID c' = q_ID c"
        using assms(2) by auto
      have "inj_on q_ID (set (view q d))"
        using view_ordered [OF assms(1), of d] by (simp add: distinct_map)
      then show False
        using c' that False by (auto dest: inj_onD)
    qed
    then have "mark_with ds c = c"
      by (induction ds) (auto simp: mark_with_def)
    then show ?thesis by simp
  qed
  then have "map q_ID (filter deliverable (map (mark_with ds) (view q d)))
      = map q_ID (filter deliverable (view q d))"
    by (simp add: filter_map comp_def ids cong: filter_cong)
  then show ?thesis
    using q' by auto
qed

end

interpretation mq: command_queue inmem_queue queue_inv dev_cmds
proof unfold_locales
  fix q d
  assume "queue_inv q"
  then show "distinct (map q_ID (dev_cmds q d)) \<and> sorted_wrt (<) (map q_Seq (dev_cmds q d))"
    using queue_inv_cmds [of q d] by (simp add: cmds_inv_def)
next
  fix q c d
  assume "queue_inv q" "c \<in> set (dev_cmds q d)"
  then show "mcmd_ok (q_Command c) \<and> q_ID c \<noteq> []"
    using queue_inv_cmds [of q d] by (auto simp: cmds_inv_def)
next
  fix q d co at q' qc
  assume "queue_inv q" "qo_Enqueue inmem_queue q d co at = (q', Inr qc)"
  then show "queue_inv q' \<and> dev_cmds q' = (dev_cmds q)(d := dev_cmds q d @ [qc]) \<and> q_State qc = StatePending
         \<and> (\<exists>cmd. co = Some cmd \<and> q_Command qc = cmd\<lparr>mc_ID := q_ID qc\<rparr>
              \<and> (mc_ID cmd \<noteq> [] \<longrightarrow> q_ID qc = mc_ID cmd))"
    using Enqueue_ok [of q d co at q' qc] by (simp add: inmem_queue_def)
next
  fix q :: queue and d :: string and ds :: "delivery list"
  assume "queue_inv q" "dl_CommandID ` set ds \<subseteq> q_ID ` set (dev_cmds q d)"
  then show "\<exists>q'. qo_MarkSent inmem_queue q d ds = (q', Inr ()) \<and> queue_inv q'
           \<and> dev_cmds q' = (dev_cmds q)(d := map (mark_with ds) (dev_cmds q d))"
    using MarkSent_ok [of q ds d] MarkSent_inv [of q d ds]
    by (intro exI [of _ "fst (MarkSent q d ds)"]) (simp add: inmem_queue_def prod_eq_iff)
next
  fix q :: queue and i d :: string and r :: qresult
  assume "queue_inv q" "i \<in> q_ID ` set (dev_cmds q d)"
  then show "\<exists>q'. qo_StoreResult inmem_queue q d i r = (q', Inr ()) \<and> queue_inv q'
           \<and> dev_cmds q' = (dev_cmds q)(d := map (\<lambda>c. if q_ID c = i then store r c else c) (dev_cmds q d))"
    using StoreResult_ok [of q i d r] StoreResult_inv [of q d i r]
    by (intro exI [of _ "fst (StoreResult q d i r)"]) (simp add: inmem_queue_def prod_eq_iff)
qed (simp_all add: inmem_queue_def Enqueue_err Deliverable_spec StoreResult_err)

section \<open>Sequences of operations\<close>

datatype qop =
    OpEnqueue string "mcmd option" time
  | OpMarkSent string "delivery list"
  | OpStoreResult string string qresult
  | OpCancel string "string list" time
  | OpPrune time int

fun qstep :: "qop \<Rightarrow> queue \<Rightarrow> queue" where
  "qstep (OpEnqueue d co at) q = fst (Enqueue q d co at)"
| "qstep (OpMarkSent d ds) q = fst (MarkSent q d ds)"
| "qstep (OpStoreResult d i r) q = fst (StoreResult q d i r)"
| "qstep (OpCancel d ids at) q = fst (Cancel q d ids at)"
| "qstep (OpPrune b n) q = fst (Prune q b n)"

abbreviation qrun :: "qop list \<Rightarrow> queue" where
  "qrun ops \<equiv> fold qstep ops NewQueue"

lemma NewQueue_inv [simp]: "queue_inv NewQueue"
  by (simp add: queue_inv_def NewQueue_def)

lemma Enqueue_inv: "queue_inv q \<Longrightarrow> queue_inv (fst (Enqueue q d co at))"
proof (cases "Enqueue q d co at")
  case (Pair q' r)
  assume "queue_inv q"
  then show ?thesis
    using Enqueue_ok(1) [of q d co at q'] Enqueue_err [of q d co at q'] Pair by (cases r) auto
qed

lemma qstep_inv: "queue_inv q \<Longrightarrow> queue_inv (qstep op q)"
  by (cases op) (simp_all add: Enqueue_inv MarkSent_inv StoreResult_inv Cancel_inv Prune_inv)

lemma fold_qstep_inv: "queue_inv q \<Longrightarrow> queue_inv (fold qstep ops q)"
  by (induction ops arbitrary: q) (simp_all add: qstep_inv)

lemma qrun_inv: "queue_inv (qrun ops)"
  by (rule fold_qstep_inv) simp

lemma deliverable_Terminal: "deliverable c \<longleftrightarrow> \<not> Terminal (q_State c)"
  by (cases "q_State c") (simp_all add: deliverable_def Terminal_def)

text \<open>What pruning removes.\<close>

lemma prune_cmds_spec:
  "set cs - set (fst (prune_cmds b l n cs)) \<subseteq> {c. prunable b c}"
  "0 < l \<Longrightarrow> int n \<le> l \<Longrightarrow> int (snd (prune_cmds b l n cs)) \<le> l"
  by (induction cs arbitrary: n) (auto simp: case_prod_beta)

lemma prune_devs_spec:
  "(d, cs) \<in> set devs \<Longrightarrow> \<exists>k. (d, fst (prune_cmds b l k cs)) \<in> set (fst (prune_devs b l n devs))"
  "0 < l \<Longrightarrow> int n \<le> l \<Longrightarrow> int (snd (prune_devs b l n devs)) \<le> l"
  by (induction devs arbitrary: n) (auto simp: case_prod_beta prune_cmds_spec, blast?)

section \<open>Properties\<close>


text \<open>
  C31. In every reachable queue, Deliverable returns the commands of the device that are not in a
  terminal state, in strictly increasing Seq order, cut to the limit when it is positive.
\<close>

theorem Deliverable_exact:
  "\<exists>cs. Deliverable (qrun ops) d limit = Inr cs
     \<and> cs = (if 0 < limit then take (nat limit) else id)
              (filter (\<lambda>c. \<not> Terminal (q_State c)) (dev_cmds (qrun ops) d))
     \<and> sorted_wrt (<) (map q_Seq cs)"
proof -
  have "sorted_wrt (<) (map q_Seq (dev_cmds (qrun ops) d))"
    using queue_inv_cmds [OF qrun_inv] by (simp add: cmds_inv_def)
  then have "sorted_wrt (<) (map q_Seq (filter (\<lambda>c. \<not> Terminal (q_State c)) (dev_cmds (qrun ops) d)))"
    by (simp add: sorted_wrt_map sorted_wrt_filter)
  then show ?thesis
    by (simp add: Deliverable_spec deliverable_Terminal [abs_def] take_map [symmetric] sorted_wrt_take)
qed

text \<open>
  First in, first out: in every reachable queue a command that was just accepted is delivered
  after everything the device was already waiting for.
\<close>

theorem Enqueue_delivered_last:
  assumes "Enqueue (qrun ops) d co at = (q', Inr qc)"
    and "length (filter deliverable (dev_cmds (qrun ops) d)) < 256"
  shows "Deliverable q' d 256 = Inr (filter deliverable (dev_cmds (qrun ops) d) @ [qc])"
  using mq.enqueue_delivered_last [of "qrun ops" d co at q' qc 256] qrun_inv assms
  by (simp add: inmem_queue_def)

lemma sample_replace_ok: "mcmd_ok sample_replace"
  using built_ok [OF built.replace [OF sample_replace_new]] .

lemma Itoa_1: "Itoa 1 = ''1''"
  by code_simp

lemma sample_enqueue:
  "\<exists>q' qc. Enqueue NewQueue ''dev'' (Some sample_replace) 5 = (q', Inr qc) \<and> q_ID qc = ''cmd-1''"
  using sample_replace_ok
  by (simp add: Enqueue_def mdm_Validate_correct [THEN iffD2] NewQueue_def dev_cmds_def Let_def
      sample_replace_def leaf_command_def build_def Itoa_1)

theorem Enqueue_delivered_last_witness:
  "\<exists>q' qc. Enqueue (qrun []) ''dev'' (Some sample_replace) 5 = (q', Inr qc)
     \<and> Deliverable q' ''dev'' 256 = Inr [qc]"
proof -
  obtain q' qc where e: "Enqueue (qrun []) ''dev'' (Some sample_replace) 5 = (q', Inr qc)"
    using sample_enqueue by auto
  moreover have "dev_cmds (qrun []) ''dev'' = []"
    by (simp add: dev_cmds_def NewQueue_def)
  ultimately show ?thesis
    using Enqueue_delivered_last [OF e] by simp
qed




end
