(* ===== verification/Mdm_Session.thy ===== *)
theory Mdm_Session
  imports Syncml_LargeObject Mdm_Queue
begin

text \<open>
  Session state and its store, \<open>mdmprotocol/mdm/session.go\<close> and \<open>collect.go\<close>: what the server
  remembers between two messages of a device, and the in-memory store with its time to live.

  \<open>GetSession\<close> returns a shallow copy: the maps, the assembler and the object in flight are shared
  with the stored session. \<open>aliased\<close> says what the stored session looks like after a caller has
  changed its copy without putting it back.
\<close>

record facts =
  f_DevInfo :: "(string \<times> string) list"
  f_LoginStatus :: string
  f_SyncType :: string
  f_DevicePrepSync :: string
  f_UserAgentOrigin :: string

record outgoing =
  og_CommandID :: string
  og_Chunks :: "item list"
  og_Name :: string

record pending_result =
  pn_status :: "int option"
  pn_origErr :: string
  pn_items :: "item list"
  pn_children :: "child_result list"

record session =
  ss_Key :: string
  ss_DeviceID :: string
  ss_SessionID :: string
  ss_EnrollmentKey :: string
  ss_ClientMsgID :: int
  ss_ServerMsgID :: int
  ss_Authenticated :: bool
  ss_AuthType :: string
  ss_Challenged :: int
  ss_ServerNonce :: string
  ss_Facts :: facts
  ss_gotPackageOne :: bool
  ss_Sent :: "(string \<times> string) list"
  ss_Children :: "(string \<times> string) list"
  ss_Outgoing :: "outgoing option"
  ss_Assembler :: "assembler option"
  ss_AssemblingCommand :: string
  ss_results :: "(string \<times> pending_result) list option"
  ss_MaxMsgSize :: int
  ss_MaxObjSize :: int
  ss_Namespace :: string
  ss_StartedAt :: time
  ss_LastSeen :: time
  ss_Closed :: bool
  ss_unenroll :: bool

definition zero_facts :: facts where
  "zero_facts = \<lparr>f_DevInfo = [], f_LoginStatus = [], f_SyncType = [], f_DevicePrepSync = [],
     f_UserAgentOrigin = []\<rparr>"

definition zero_pending :: pending_result where
  "zero_pending = \<lparr>pn_status = None, pn_origErr = [], pn_items = [], pn_children = []\<rparr>"

definition zero_session :: session where
  "zero_session = \<lparr>ss_Key = [], ss_DeviceID = [], ss_SessionID = [], ss_EnrollmentKey = [],
     ss_ClientMsgID = 0, ss_ServerMsgID = 0, ss_Authenticated = False, ss_AuthType = [],
     ss_Challenged = 0, ss_ServerNonce = [], ss_Facts = zero_facts, ss_gotPackageOne = False,
     ss_Sent = [], ss_Children = [], ss_Outgoing = None, ss_Assembler = None,
     ss_AssemblingCommand = [], ss_results = None, ss_MaxMsgSize = 0, ss_MaxObjSize = 0,
     ss_Namespace = [], ss_StartedAt = 0, ss_LastSeen = 0, ss_Closed = False, ss_unenroll = False\<rparr>"

definition SessionKey :: "string \<Rightarrow> string \<Rightarrow> string" where
  "SessionKey deviceID sessionID = deviceID @ ''/'' @ sessionID"

section \<open>Answers collected during a message\<close>

definition ensurePending :: "session \<Rightarrow> string \<Rightarrow> (string \<times> pending_result) list \<times> pending_result" where
  "ensurePending sess i =
     (let rs = (case ss_results sess of None \<Rightarrow> [] | Some rs \<Rightarrow> rs)
      in case map_of rs i of Some pr \<Rightarrow> (rs, pr) | None \<Rightarrow> (AList.update i zero_pending rs, zero_pending))"

definition set_pending :: "session \<Rightarrow> string \<Rightarrow> (pending_result \<Rightarrow> pending_result) \<Rightarrow> session" where
  "set_pending sess i f =
     (case ensurePending sess i of (rs, pr) \<Rightarrow> sess\<lparr>ss_results := Some (AList.update i (f pr) rs)\<rparr>)"

definition pendingStatus :: "session \<Rightarrow> string \<Rightarrow> status \<Rightarrow> session" where
  "pendingStatus sess i st =
     set_pending sess i
       (\<lambda>pr. pr\<lparr>pn_status := Some (status_Code st), pn_origErr := d_OriginalError (s_Data st)\<rparr>)"

definition recordChild :: "session \<Rightarrow> string \<Rightarrow> status \<Rightarrow> session" where
  "recordChild sess parent st =
     set_pending sess parent
       (\<lambda>pr. pr\<lparr>pn_children := pn_children pr @
          [\<lparr>cd_Name = s_Cmd st, cd_Target = [], cd_Status = status_Code st,
            cd_OriginalError = d_OriginalError (s_Data st), cd_Items = []\<rparr>]\<rparr>)"

definition stashResults :: "session \<Rightarrow> string \<Rightarrow> item list \<Rightarrow> session" where
  "stashResults sess i its = set_pending sess i (\<lambda>pr. pr\<lparr>pn_items := pn_items pr @ its\<rparr>)"

section \<open>The session store\<close>

text \<open>\<open>time.Hour\<close>, and \<open>Sub\<close>, which saturates at the bounds of a duration.\<close>

definition Hour :: duration where
  "Hour = 3600 * 10 ^ 9"

record memory_sessions =
  ms_sessions :: "(string \<times> session) list"
  ms_TTL :: duration

definition NewMemorySessions :: memory_sessions where
  "NewMemorySessions = \<lparr>ms_sessions = [], ms_TTL = Hour\<rparr>"

definition ms_ttl :: "memory_sessions \<Rightarrow> duration" where
  "ms_ttl m = (if ms_TTL m = 0 then Hour else ms_TTL m)"

definition GetSession :: "memory_sessions \<Rightarrow> time \<Rightarrow> string \<Rightarrow> memory_sessions \<times> session result" where
  "GetSession m now key =
     (case map_of (ms_sessions m) key of
        None \<Rightarrow> (m, Inl [Mdm_ErrNotFound])
      | Some s \<Rightarrow>
          if ms_ttl m < time_Sub now (ss_LastSeen s)
          then (m\<lparr>ms_sessions := AList.delete key (ms_sessions m)\<rparr>, Inl [Mdm_ErrNotFound])
          else (m, Inr s))"

definition PutSession :: "memory_sessions \<Rightarrow> session \<Rightarrow> memory_sessions \<times> unit result" where
  "PutSession m s = (m\<lparr>ms_sessions := AList.update (ss_Key s) s (ms_sessions m)\<rparr>, Inr ())"

definition DeleteSession :: "memory_sessions \<Rightarrow> string \<Rightarrow> memory_sessions \<times> unit result" where
  "DeleteSession m key = (m\<lparr>ms_sessions := AList.delete key (ms_sessions m)\<rparr>, Inr ())"

definition sessions_Len :: "memory_sessions \<Rightarrow> nat" where
  "sessions_Len m = length (ms_sessions m)"

text \<open>
  The stored session after its copy changed from \<open>old\<close> to \<open>new\<close>: the two maps are shared; the
  answers, the assembler and the outgoing object are shared if they existed when the copy was
  made. \<open>out\<close> is the current content of the object \<open>old\<close> points to.
\<close>

definition aliased :: "session \<Rightarrow> session \<Rightarrow> outgoing option \<Rightarrow> session" where
  "aliased old new out =
     old\<lparr>ss_Sent := ss_Sent new, ss_Children := ss_Children new,
        ss_results := (if ss_results old = None then None else ss_results new),
        ss_Assembler := (if ss_Assembler old = None then None else ss_Assembler new),
        ss_Outgoing := (if ss_Outgoing old = None then None else out)\<rparr>"

definition ms_alias :: "memory_sessions \<Rightarrow> session \<Rightarrow> memory_sessions" where
  "ms_alias m s =
     (if map_of (ms_sessions m) (ss_Key s) = None then m
      else m\<lparr>ms_sessions := AList.update (ss_Key s) s (ms_sessions m)\<rparr>)"

text \<open>\<open>SessionStore\<close> as the engine calls it. \<open>so_Alias\<close> is what writing through references shared with
  a stored session does to the store; a store that hands out independent copies ignores it.\<close>

record 's session_ops =
  so_Get :: "'s \<Rightarrow> time \<Rightarrow> string \<Rightarrow> 's \<times> session result"
  so_Put :: "'s \<Rightarrow> session \<Rightarrow> 's \<times> unit result"
  so_Delete :: "'s \<Rightarrow> string \<Rightarrow> 's \<times> unit result"
  so_Alias :: "'s \<Rightarrow> session \<Rightarrow> 's"

definition inmem_sessions :: "memory_sessions session_ops" where
  "inmem_sessions = \<lparr>so_Get = GetSession, so_Put = PutSession, so_Delete = DeleteSession,
     so_Alias = ms_alias\<rparr>"

text \<open>
  The contract: a stored session is returned until it is stale, replaced or deleted, and no
  operation touches the session of another key.
\<close>

locale session_store =
  fixes S :: "'s session_ops"
    and content :: "'s \<Rightarrow> string \<rightharpoonup> session"
    and stale :: "'s \<Rightarrow> time \<Rightarrow> session \<Rightarrow> bool"
  assumes get_live:
      "content s k = Some x \<Longrightarrow> \<not> stale s now x \<Longrightarrow> so_Get S s now k = (s, Inr x)"
    and get_stale:
      "content s k = Some x \<Longrightarrow> stale s now x \<Longrightarrow>
         \<exists>s'. so_Get S s now k = (s', Inl [Mdm_ErrNotFound]) \<and> content s' = (content s)(k := None)
           \<and> stale s' = stale s"
    and get_missing:
      "content s k = None \<Longrightarrow> so_Get S s now k = (s, Inl [Mdm_ErrNotFound])"
    and put_content:
      "\<exists>s'. so_Put S s x = (s', Inr ()) \<and> content s' = (content s)(ss_Key x \<mapsto> x) \<and> stale s' = stale s"
    and delete_content:
      "\<exists>s'. so_Delete S s k = (s', Inr ()) \<and> content s' = (content s)(k := None) \<and> stale s' = stale s"
    and alias_content:
      "stale (so_Alias S s x) = stale s \<and> (content (so_Alias S s x) = content s
         \<or> content s (ss_Key x) \<noteq> None \<and> content (so_Alias S s x) = (content s)(ss_Key x \<mapsto> x))"
begin

lemma put_then_get:
  assumes "so_Put S s x = (s', r)" "\<not> stale s now x"
  shows "so_Get S s' now (ss_Key x) = (s', Inr x)"
  using assms put_content [of s x] get_live [of s' "ss_Key x" x now] by auto

lemma delete_then_get:
  assumes "so_Delete S s k = (s', r)"
  shows "so_Get S s' now k = (s', Inl [Mdm_ErrNotFound])"
  using assms delete_content [of s k] get_missing [of s' k now] by auto

lemma put_keeps_others:
  assumes "so_Put S s x = (s', r)" "k \<noteq> ss_Key x"
  shows "content s' k = content s k"
  using assms put_content [of s x] by auto

lemma get_result:
  "so_Get S s now k = (s', r) \<Longrightarrow>
     (case r of Inr x \<Rightarrow> content s k = Some x \<and> \<not> stale s now x \<and> s' = s
      | Inl e \<Rightarrow> e = [Mdm_ErrNotFound] \<and> content s' k = None)"
  using get_live [of s k _ now] get_stale [of s k _ now] get_missing [of s k now]
  by (cases "content s k"; cases "stale s now (the (content s k))") auto

end

definition ms_stale :: "memory_sessions \<Rightarrow> time \<Rightarrow> session \<Rightarrow> bool" where
  "ms_stale m now s = (ms_ttl m < time_Sub now (ss_LastSeen s))"

interpretation msess: session_store inmem_sessions "\<lambda>m. map_of (ms_sessions m)" ms_stale
  by unfold_locales
     (auto simp: inmem_sessions_def GetSession_def PutSession_def DeleteSession_def ms_stale_def
       ms_ttl_def ms_alias_def fun_eq_iff update_conv' delete_conv')

section \<open>Properties\<close>

text \<open>
  A session put in the store is returned unchanged until more than the time to live has passed
  since it was last seen, and from then on the device has to open a new one; a deleted session is
  gone. Neither affects the sessions of other keys.
\<close>

theorem session_ttl:
  "case PutSession m x of (m', r) \<Rightarrow>
     r = Inr ()
     \<and> (GetSession m' now (ss_Key x) =
          (if ms_ttl m < time_Sub now (ss_LastSeen x)
           then (fst (DeleteSession m' (ss_Key x)), Inl [Mdm_ErrNotFound]) else (m', Inr x)))
     \<and> snd (GetSession (fst (DeleteSession m' (ss_Key x))) now (ss_Key x)) = Inl [Mdm_ErrNotFound]
     \<and> (k = ss_Key x \<or> snd (GetSession m' now k) = snd (GetSession m now k))"
  using msess.put_then_get [of m x _ _ now]
  by (auto simp: PutSession_def GetSession_def DeleteSession_def ms_ttl_def update_conv' delete_conv'
      split: option.split)

end
