(* ===== verification/State_Store.thy ===== *)
theory State_Store
  imports Go_Strings "HOL-Library.AList" "HOL-Library.Char_ord" "HOL-Library.List_Lexorder" "HOL-Library.Sublist"
begin

text \<open>
  The keyed state store, \<open>state/state.go\<close>: records with an expiry, and transactions whose writes
  are committed together or not at all. A transaction is a private write set over the records
  as they were when it began; \<open>Update\<close> runs a callback on it. \<open>ctx.Err()\<close> is an observation
  passed in where the code makes it.
\<close>

record srecord =
  sr_Key :: string
  sr_Value :: string
  sr_ExpiresAt :: time

definition ValidKey :: "string \<Rightarrow> bool" where
  "ValidKey k = (k \<noteq> [] \<and> length k \<le> 255 \<and> list_all (\<lambda>c. 33 \<le> byte c \<and> byte c \<le> 126) k)"

text \<open>The records of a \<open>Memory\<close> store by key; its map is never ranged over in an order that shows,
  except by \<open>Prune\<close>, whose order is that of the association list.\<close>

type_synonym records = "(string \<times> srecord) list"

record tx =
  tx_records :: records
  tx_writes :: "(string \<times> srecord option) list"
  tx_now :: time

definition tx_Get :: "tx \<Rightarrow> error option \<Rightarrow> string \<Rightarrow> srecord result" where
  "tx_Get t ctx k =
     (case ctx of Some e \<Rightarrow> Inl e | None \<Rightarrow>
        if \<not> ValidKey k then Inl [State_ErrInvalid]
        else case map_of (tx_writes t) k of
            Some None \<Rightarrow> Inl [State_ErrNotFound]
          | Some (Some r) \<Rightarrow> Inr r
          | None \<Rightarrow> (case map_of (tx_records t) k of None \<Rightarrow> Inl [State_ErrNotFound] | Some r \<Rightarrow> Inr r))"

definition tx_Put :: "tx \<Rightarrow> error option \<Rightarrow> srecord \<Rightarrow> tx result" where
  "tx_Put t ctx r =
     (case ctx of Some e \<Rightarrow> Inl e | None \<Rightarrow>
        if \<not> ValidKey (sr_Key r) then Inl [State_ErrInvalid]
        else Inr (t\<lparr>tx_writes := AList.update (sr_Key r) (Some r) (tx_writes t)\<rparr>))"

definition tx_Delete :: "tx \<Rightarrow> error option \<Rightarrow> string \<Rightarrow> tx result" where
  "tx_Delete t ctx k =
     (case ctx of Some e \<Rightarrow> Inl e | None \<Rightarrow>
        if \<not> ValidKey k then Inl [State_ErrInvalid]
        else Inr (t\<lparr>tx_writes := AList.update k None (tx_writes t)\<rparr>))"

text \<open>\<open>keys\<close> of \<open>List\<close>: the stored keys, overridden by the transaction's writes.\<close>

definition tx_live :: "tx \<Rightarrow> string list" where
  "tx_live t =
     filter (\<lambda>k. case map_of (tx_writes t) k of None \<Rightarrow> True | Some w \<Rightarrow> w \<noteq> None)
       (remdups (map fst (tx_records t) @ map fst (tx_writes t)))"

fun get_all :: "tx \<Rightarrow> error option \<Rightarrow> string list \<Rightarrow> srecord list result" where
  "get_all t ctx [] = Inr []"
| "get_all t ctx (k # ks) =
     rbind (tx_Get t ctx k) (\<lambda>r. rbind (get_all t ctx ks) (\<lambda>rs. Inr (r # rs)))"

definition tx_List :: "tx \<Rightarrow> error option \<Rightarrow> string \<Rightarrow> string \<Rightarrow> int \<Rightarrow> srecord list result" where
  "tx_List t ctx pre after limit =
     (case ctx of Some e \<Rightarrow> Inl e | None \<Rightarrow>
        if limit \<le> 0 \<or> 10000 < limit then Inl [State_ErrInvalid]
        else get_all t ctx
               (take (nat limit) (sort (filter (\<lambda>k. HasPrefix k pre \<and> after < k) (tx_live t)))))"

definition new_tx :: "records \<Rightarrow> time \<Rightarrow> tx" where
  "new_tx rs now = \<lparr>tx_records = rs, tx_writes = [], tx_now = now\<rparr>"

definition mem_Get :: "records \<Rightarrow> error option \<Rightarrow> string \<Rightarrow> srecord result" where
  "mem_Get rs ctx k = tx_Get (new_tx rs 0) ctx k"

definition mem_List :: "records \<Rightarrow> error option \<Rightarrow> string \<Rightarrow> string \<Rightarrow> int \<Rightarrow> srecord list result" where
  "mem_List rs ctx pre after limit = tx_List (new_tx rs 0) ctx pre after limit"

fun commit :: "(string \<times> srecord option) list \<Rightarrow> records \<Rightarrow> records" where
  "commit [] rs = rs"
| "commit ((k, w) # ws) rs =
     commit ws (case w of None \<Rightarrow> AList.delete k rs | Some r \<Rightarrow> AList.update k r rs)"

text \<open>
  \<open>Update\<close>. The callback maps the transaction to an error or to the transaction after its writes;
  a nil callback is \<open>None\<close>. \<open>ctx0\<close> and \<open>ctx1\<close> are \<open>ctx.Err()\<close> before and after it runs.
\<close>

definition mem_Update :: "records \<Rightarrow> time \<Rightarrow> error option \<Rightarrow> error option \<Rightarrow> string list
    \<Rightarrow> (tx \<Rightarrow> tx result) option \<Rightarrow> records \<times> unit result" where
  "mem_Update rs now ctx0 ctx1 keys fn =
     (case fn of
        None \<Rightarrow> (rs, Inl [State_ErrInvalid])
      | Some f \<Rightarrow>
          if keys = [] \<or> \<not> list_all ValidKey keys then (rs, Inl [State_ErrInvalid])
          else case ctx0 of Some e \<Rightarrow> (rs, Inl e) | None \<Rightarrow>
            (case f (new_tx rs now) of
               Inl e \<Rightarrow> (rs, Inl e)
             | Inr t \<Rightarrow> (case ctx1 of Some e \<Rightarrow> (rs, Inl e) | None \<Rightarrow> (commit (tx_writes t) rs, Inr ()))))"

definition expired :: "time \<Rightarrow> srecord \<Rightarrow> bool" where
  "expired now r = (\<not> IsZero (sr_ExpiresAt r) \<and> sr_ExpiresAt r \<le> now)"

fun prune_records :: "time \<Rightarrow> nat \<Rightarrow> records \<Rightarrow> records \<times> nat" where
  "prune_records now 0 rs = (rs, 0)"
| "prune_records now (Suc n) [] = ([], 0)"
| "prune_records now (Suc n) ((k, r) # rs) =
     (if expired now r then case prune_records now n rs of (rs', m) \<Rightarrow> (rs', m + 1)
      else case prune_records now (Suc n) rs of (rs', m) \<Rightarrow> ((k, r) # rs', m))"

definition mem_Prune :: "records \<Rightarrow> time \<Rightarrow> error option \<Rightarrow> int \<Rightarrow> records \<times> nat result" where
  "mem_Prune rs now ctx limit =
     (if limit \<le> 0 \<or> 10000 < limit then (rs, Inl [State_ErrInvalid])
      else case ctx of Some e \<Rightarrow> (rs, Inl e) | None \<Rightarrow>
        (case prune_records now (nat limit) rs of (rs', n) \<Rightarrow> (rs', Inr n)))"

section \<open>Facts\<close>

lemma ValidKey_code [code]:
  "ValidKey k = (k \<noteq> [] \<and> foldl (\<lambda>n _. n + 1) (0 :: int) k \<le> 255 \<and> list_all visible k)"
proof -
  have "foldl (\<lambda>n _. n + 1) (m :: int) k = m + int (length k)" for m
    by (induction k arbitrary: m) simp_all
  then have "foldl (\<lambda>n _. n + 1) (0 :: int) k = int (length k)" by simp
  then show ?thesis by (auto simp: ValidKey_def visible_def list_all_iff)
qed

lemma set_alist_update: "set (AList.update k v al) \<subseteq> insert (k, v) (set al)"
  by (induction al) auto

lemma set_alist_delete: "set (AList.delete k al) \<subseteq> set al"
  by (auto simp: AList.delete_eq)

definition records_inv :: "records \<Rightarrow> bool" where
  "records_inv rs = (distinct (map fst rs) \<and> (\<forall>(k, r) \<in> set rs. sr_Key r = k \<and> ValidKey k))"

text \<open>The write set names every key once, with a valid key, and puts records under their own key.\<close>

definition writes_inv :: "(string \<times> srecord option) list \<Rightarrow> bool" where
  "writes_inv ws = (distinct (map fst ws) \<and> (\<forall>(k, w) \<in> set ws. ValidKey k \<and> pred_option (\<lambda>r. sr_Key r = k) w))"

definition tx_inv :: "tx \<Rightarrow> bool" where
  "tx_inv t = (records_inv (tx_records t) \<and> writes_inv (tx_writes t))"

lemma map_of_commit:
  assumes "distinct (map fst ws)"
  shows "map_of (commit ws rs) k = (case map_of ws k of None \<Rightarrow> map_of rs k | Some w \<Rightarrow> w)"
  using assms
proof (induction ws arbitrary: rs)
  case (Cons kw ws)
  obtain k' w where kw: "kw = (k', w)" by (cases kw)
  have "map_of ws k' = None"
    using Cons.prems by (simp add: kw map_of_eq_None_iff)
  then show ?case
    using Cons by (cases w; cases "k = k'") (auto simp: kw AList.update_conv' AList.delete_conv' split: option.split)
qed simp

section \<open>Callbacks as sequences of writes\<close>

datatype txop = TPut srecord | TDelete string

fun apply_ops :: "txop list \<Rightarrow> tx \<Rightarrow> tx result" where
  "apply_ops [] t = Inr t"
| "apply_ops (TPut r # ops) t = rbind (tx_Put t None r) (apply_ops ops)"
| "apply_ops (TDelete k # ops) t = rbind (tx_Delete t None k) (apply_ops ops)"

text \<open>The same writes on an abstract map.\<close>

fun spec_op :: "txop \<Rightarrow> (string \<rightharpoonup> srecord) \<Rightarrow> string \<rightharpoonup> srecord" where
  "spec_op (TPut r) m = m(sr_Key r \<mapsto> r)"
| "spec_op (TDelete k) m = m(k := None)"

text \<open>What a transaction sees: its writes over the records.\<close>

definition tx_view :: "tx \<Rightarrow> string \<rightharpoonup> srecord" where
  "tx_view t k = (case map_of (tx_writes t) k of None \<Rightarrow> map_of (tx_records t) k | Some w \<Rightarrow> w)"

lemma writes_inv_update:
  "writes_inv ws \<Longrightarrow> ValidKey k \<Longrightarrow> pred_option (\<lambda>r. sr_Key r = k) w \<Longrightarrow> writes_inv (AList.update k w ws)"
  using set_alist_update [of k w ws] by (auto simp: writes_inv_def distinct_update)

lemma tx_Put_view:
  "tx_Put t None r = Inr t' \<Longrightarrow> tx_inv t \<Longrightarrow>
     tx_inv t' \<and> tx_records t' = tx_records t \<and> tx_view t' = (tx_view t)(sr_Key r \<mapsto> r)"
  by (auto simp: tx_Put_def tx_inv_def tx_view_def fun_eq_iff writes_inv_update update_conv'
      split: if_splits option.split)

lemma tx_Delete_view:
  "tx_Delete t None k = Inr t' \<Longrightarrow> tx_inv t \<Longrightarrow>
     tx_inv t' \<and> tx_records t' = tx_records t \<and> tx_view t' = (tx_view t)(k := None)"
  by (auto simp: tx_Delete_def tx_inv_def tx_view_def fun_eq_iff writes_inv_update update_conv'
      split: if_splits option.split)

lemma apply_ops_view:
  "apply_ops ops t = Inr t' \<Longrightarrow> tx_inv t \<Longrightarrow>
     tx_inv t' \<and> tx_records t' = tx_records t \<and> tx_view t' = fold spec_op ops (tx_view t)"
proof (induction ops t arbitrary: t' rule: apply_ops.induct)
  case (2 r ops t)
  then show ?case by (auto dest!: tx_Put_view simp del: fun_upd_apply)
next
  case (3 k ops t)
  then show ?case by (auto dest!: tx_Delete_view simp del: fun_upd_apply)
qed simp

lemma tx_Get_view:
  "tx_Get t None k =
     (if \<not> ValidKey k then Inl [State_ErrInvalid]
      else case tx_view t k of None \<Rightarrow> Inl [State_ErrNotFound] | Some r \<Rightarrow> Inr r)"
  by (auto simp: tx_Get_def tx_view_def split: option.split)

lemma new_tx_inv [simp]: "records_inv rs \<Longrightarrow> tx_inv (new_tx rs now)"
  by (simp add: tx_inv_def new_tx_def writes_inv_def)

lemma new_tx_records [simp]: "tx_records (new_tx rs now) = rs"
  by (simp add: new_tx_def)

lemma new_tx_view [simp]: "tx_view (new_tx rs now) = map_of rs"
  by (simp add: tx_view_def new_tx_def fun_eq_iff)

lemma commit_view: "tx_inv t \<Longrightarrow> map_of (commit (tx_writes t) (tx_records t)) = tx_view t"
  by (auto simp: tx_inv_def writes_inv_def tx_view_def fun_eq_iff map_of_commit)

text \<open>Committing keeps the store well formed.\<close>

lemma records_inv_step:
  assumes "records_inv rs" "ValidKey k" "pred_option (\<lambda>r. sr_Key r = k) w"
  shows "records_inv (case w of None \<Rightarrow> AList.delete k rs | Some r \<Rightarrow> AList.update k r rs)"
proof (cases w)
  case None
  then show ?thesis
    using assms set_alist_delete [of k rs] by (fastforce simp: records_inv_def distinct_delete)
next
  case (Some r)
  then show ?thesis
    using assms set_alist_update [of k r rs] by (fastforce simp: records_inv_def distinct_update)
qed

lemma commit_inv: "writes_inv ws \<Longrightarrow> records_inv rs \<Longrightarrow> records_inv (commit ws rs)"
proof (induction ws arbitrary: rs)
  case (Cons kw ws)
  then show ?case
    by (cases kw) (auto simp: writes_inv_def records_inv_step)
qed simp

lemma mem_Update_inv:
  assumes "records_inv rs" "mem_Update rs now c0 c1 keys (Some (apply_ops ops)) = (rs', r)"
  shows "records_inv rs'"
proof -
  have "records_inv (commit (tx_writes t) rs)" if "apply_ops ops (new_tx rs now) = Inr t" for t
    using apply_ops_view [OF that] assms(1) commit_inv
    by (simp add: tx_inv_def new_tx_def writes_inv_def)
  then show ?thesis
    using assms by (auto simp: mem_Update_def split: if_splits sum.splits option.splits)
qed

section \<open>Listing and pruning\<close>

lemma live_iff: "k \<in> set (tx_live t) \<longleftrightarrow> tx_view t k \<noteq> None"
  using map_of_eq_None_iff [of "tx_records t" k] map_of_eq_None_iff [of "tx_writes t" k]
  by (auto simp: tx_live_def tx_view_def split: option.split)


lemma tx_view_key: "tx_inv t \<Longrightarrow> tx_view t k = Some r \<Longrightarrow> ValidKey k \<and> sr_Key r = k"
  by (auto simp: tx_inv_def tx_view_def records_inv_def writes_inv_def split: option.splits
      dest!: map_of_SomeD)

lemma get_all_view:
  assumes "tx_inv t" "\<forall>k \<in> set ks. tx_view t k \<noteq> None"
  shows "get_all t None ks = Inr (map (\<lambda>k. the (tx_view t k)) ks)"
  using assms(2)
proof (induction ks)
  case (Cons k ks)
  then obtain r where "tx_view t k = Some r" by auto
  then show ?case
    using Cons tx_view_key [OF assms(1)] by (simp add: tx_Get_view)
qed simp

lemma sort_live:
  "sort (filter P (tx_live t)) = sorted_list_of_set {k. tx_view t k \<noteq> None \<and> P k}"
proof -
  have "distinct (filter P (tx_live t))" by (simp add: tx_live_def)
  moreover have "set (filter P (tx_live t)) = {k. tx_view t k \<noteq> None \<and> P k}"
    using live_iff by auto
  ultimately show ?thesis
    by (metis sorted_list_of_set_sort_remdups distinct_remdups_id)
qed

lemma prune_records_spec:
  "prune_records now n rs = (rs', m) \<Longrightarrow>
     m = min n (length (filter (expired now \<circ> snd) rs)) \<and> length rs' + m = length rs \<and>
     subseq rs' rs \<and> filter (Not \<circ> (expired now \<circ> snd)) rs' = filter (Not \<circ> (expired now \<circ> snd)) rs"
  by (induction now n rs arbitrary: rs' m rule: prune_records.induct)
     (fastforce split: if_splits prod.splits)+

lemma records_inv_subseq:
  assumes "subseq rs' rs" "records_inv rs"
  shows "records_inv rs'"
proof -
  obtain N where "rs' = nths rs N" using assms(1) by (auto simp: subseq_conv_nths)
  moreover have "distinct (map fst (nths rs N))"
    using assms(2) by (simp add: records_inv_def distinct_nthsI flip: nths_map)
  moreover have "set (nths rs N) \<subseteq> set rs" by (rule set_nths_subset)
  ultimately show ?thesis using assms(2) by (auto simp: records_inv_def)
qed

lemma apply_ops_total:
  "(\<exists>t'. apply_ops ops t = Inr t') \<longleftrightarrow>
     list_all (\<lambda>w. case w of TPut r \<Rightarrow> ValidKey (sr_Key r) | TDelete k \<Rightarrow> ValidKey k) ops"
  by (induction ops t rule: apply_ops.induct) (auto simp: tx_Put_def tx_Delete_def)

section \<open>Properties\<close>

text \<open>
  C34. \<open>Update\<close> is atomic and refines the writes on a map. A callback that performs a sequence of
  puts and deletes commits exactly when the lock keys are present and valid, the context is live
  before and after, and every written key is valid; then the stored map is the old one with the
  writes applied in order, and the store stays well formed. In every other case the call returns
  an error and the records are unchanged.
\<close>

theorem state_update_atomic:
  assumes "records_inv rs" and "mem_Update rs now c0 c1 keys (Some (apply_ops ops)) = (rs', res)"
  shows "(res = Inr () \<longleftrightarrow>
            keys \<noteq> [] \<and> list_all ValidKey keys \<and> c0 = None \<and> c1 = None \<and>
            list_all (\<lambda>w. case w of TPut r \<Rightarrow> ValidKey (sr_Key r) | TDelete k \<Rightarrow> ValidKey k) ops)
       \<and> records_inv rs'
       \<and> (if res = Inr () then map_of rs' = fold spec_op ops (map_of rs) else rs' = rs)"
proof (intro conjI)
  show "res = Inr () \<longleftrightarrow> keys \<noteq> [] \<and> list_all ValidKey keys \<and> c0 = None \<and> c1 = None \<and>
      list_all (\<lambda>w. case w of TPut r \<Rightarrow> ValidKey (sr_Key r) | TDelete k \<Rightarrow> ValidKey k) ops"
    using assms(2) apply_ops_total [of ops "new_tx rs now"]
    by (auto simp: mem_Update_def split: if_splits sum.splits option.splits)
  show "records_inv rs'" using mem_Update_inv [OF assms] .
  have "map_of (commit (tx_writes t) rs) = fold spec_op ops (map_of rs)"
    if "apply_ops ops (new_tx rs now) = Inr t" for t
    using apply_ops_view [OF that new_tx_inv [OF assms(1)]] commit_view [of t] by simp
  then show "if res = Inr () then map_of rs' = fold spec_op ops (map_of rs) else rs' = rs"
    using assms(2) by (auto simp: mem_Update_def split: if_splits sum.splits option.splits)
qed

theorem state_update_atomic_witness:
  "map_of (fst (mem_Update [] 5 None None [''k''] (Some (apply_ops [TPut \<lparr>sr_Key = ''k'', sr_Value = ''v'', sr_ExpiresAt = 9\<rparr>]))))
     ''k'' = Some \<lparr>sr_Key = ''k'', sr_Value = ''v'', sr_ExpiresAt = 9\<rparr>"
proof -
  let ?w = "TPut \<lparr>sr_Key = ''k'', sr_Value = ''v'', sr_ExpiresAt = 9\<rparr>"
  obtain rs' res where u: "mem_Update [] 5 None None [''k''] (Some (apply_ops [?w])) = (rs', res)"
    by fastforce
  have "records_inv []" by (simp add: records_inv_def)
  moreover have "ValidKey ''k''" by code_simp
  ultimately show ?thesis using state_update_atomic [OF _ u] by (simp add: u)
qed

text \<open>
  C35. Inside a transaction \<open>List\<close> returns, for a limit in range, the records the transaction sees
  (its own writes over the stored records, deletions hidden) whose key has the prefix and lies
  strictly after the cursor: the first \<open>limit\<close> of them in increasing key order, each with the value
  the transaction sees.
\<close>

theorem state_list_exact:
  assumes "tx_inv t" "0 < limit" "limit \<le> 10000"
  shows "\<exists>rs. tx_List t None pre after limit = Inr rs
    \<and> map sr_Key rs = take (nat limit)
        (sorted_list_of_set {k. tx_view t k \<noteq> None \<and> HasPrefix k pre \<and> after < k})
    \<and> (\<forall>r \<in> set rs. tx_view t (sr_Key r) = Some r)"
proof -
  define S where "S = {k. tx_view t k \<noteq> None \<and> HasPrefix k pre \<and> after < k}"
  define ks where "ks = take (nat limit) (sorted_list_of_set S)"
  have "finite S"
    unfolding S_def by (rule finite_subset [of _ "set (tx_live t)"]) (auto simp: live_iff)
  then have "set ks \<subseteq> S"
    unfolding ks_def by (metis set_sorted_list_of_set set_take_subset)
  then have ks: "\<forall>k \<in> set ks. tx_view t k \<noteq> None" by (auto simp: S_def)
  have "tx_List t None pre after limit = get_all t None ks"
    using assms by (simp add: tx_List_def sort_live ks_def S_def)
  then have "tx_List t None pre after limit = Inr (map (\<lambda>k. the (tx_view t k)) ks)"
    using get_all_view [OF assms(1) ks] by simp
  moreover have "map sr_Key (map (\<lambda>k. the (tx_view t k)) ks) = ks"
    using ks tx_view_key [OF assms(1)] by (auto intro!: map_idI)
  moreover have "\<forall>r \<in> set (map (\<lambda>k. the (tx_view t k)) ks). tx_view t (sr_Key r) = Some r"
    using ks tx_view_key [OF assms(1)] by auto
  ultimately show ?thesis unfolding ks_def S_def by blast
qed

theorem state_list_exact_witness:
  "\<exists>rs. tx_List (new_tx [(''k'', \<lparr>sr_Key = ''k'', sr_Value = ''v'', sr_ExpiresAt = 9\<rparr>)] 0) None [] [] 10 = Inr rs
     \<and> (\<forall>r \<in> set rs. sr_Value r = ''v'')"
proof -
  let ?t = "new_tx [(''k'', \<lparr>sr_Key = ''k'', sr_Value = ''v'', sr_ExpiresAt = 9\<rparr>)] 0"
  have "ValidKey ''k''" by code_simp
  then have "tx_inv ?t" by (intro new_tx_inv) (simp add: records_inv_def)
  moreover have "(0::int) < 10" "(10::int) \<le> 10000" by simp_all
  ultimately obtain rs where
    rs: "tx_List ?t None [] [] 10 = Inr rs" "\<forall>r \<in> set rs. tx_view ?t (sr_Key r) = Some r"
    using state_list_exact by blast
  have "sr_Value r = ''v''" if "tx_view ?t (sr_Key r) = Some r" for r
    using that by (auto split: if_splits)
  with rs show ?thesis by blast
qed

text \<open>
  \<open>Prune\<close> with a limit in range removes exactly as many records as are expired, up to the limit,
  reports that number, removes only expired ones (a zero expiry never expires) and keeps the
  others, in their order; the store stays well formed. Out of range, or with a dead context, it fails and removes nothing.
\<close>

theorem state_prune_exact:
  "case mem_Prune rs now ctx limit of
     (rs', Inl e) \<Rightarrow> rs' = rs \<and> (limit \<le> 0 \<or> 10000 < limit \<or> ctx = Some e)
   | (rs', Inr n) \<Rightarrow> 0 < limit \<and> limit \<le> 10000 \<and> ctx = None
       \<and> n = min (nat limit) (length (filter (expired now \<circ> snd) rs))
       \<and> length rs' + n = length rs \<and> subseq rs' rs \<and> (records_inv rs \<longrightarrow> records_inv rs')
       \<and> filter (Not \<circ> (expired now \<circ> snd)) rs' = filter (Not \<circ> (expired now \<circ> snd)) rs"
  using prune_records_spec [of now "nat limit" rs] records_inv_subseq
  by (auto simp: mem_Prune_def split: if_splits option.splits prod.splits)

theorem state_prune_exact_witness:
  "snd (mem_Prune [(''k'', \<lparr>sr_Key = ''k'', sr_Value = ''v'', sr_ExpiresAt = 9\<rparr>)] 10 None 5) = Inr 1"
  using state_prune_exact [of "[(''k'', \<lparr>sr_Key = ''k'', sr_Value = ''v'', sr_ExpiresAt = 9\<rparr>)]" 5 None 10]
  by (auto simp: expired_def IsZero_def split: prod.splits sum.splits)

end
