(* ===== verification/Mdm_Auth.thy ===== *)
theory Mdm_Auth
  imports Syncml_Auth State_Store
begin

text \<open>
  Authentication of devices, \<open>mdmprotocol/mdm/auth.go\<close>, \<open>basic.go\<close>, \<open>nonce.go\<close> and the parts of
  \<open>transport.go\<close> it rests on: identities, the TLS chains that count as evidence, the stored
  verifier of basic credentials, and the nonces of the MD5 scheme.

  The digest and key derivation functions of the Go library are the fields of \<open>crypto\<close>;
  \<open>subtle.ConstantTimeCompare\<close> decides equality of the two byte strings.
\<close>

section \<open>Transport\<close>

text \<open>A certificate by its encoding and its serial number; \<open>Equal\<close> compares encodings.\<close>

record cert =
  ct_Raw :: string
  ct_SerialNumber :: "int option"

record transport =
  t_Mode :: string
  t_Platform :: string
  t_UserAgent :: string
  t_BearerToken :: string
  t_DeviceToken :: string
  t_MSSignature :: string
  t_GenericAlerts :: "string list"
  t_ClientRequestID :: string
  t_CorrelationVector :: string
  t_UserAgentOrigin :: string
  t_ContentType :: string
  t_Certificates :: "cert option list"
  t_VerifiedChains :: "cert option list list"

definition zero_transport :: transport where
  "zero_transport = \<lparr>t_Mode = [], t_Platform = [], t_UserAgent = [], t_BearerToken = [],
     t_DeviceToken = [], t_MSSignature = [], t_GenericAlerts = [], t_ClientRequestID = [],
     t_CorrelationVector = [], t_UserAgentOrigin = [], t_ContentType = [], t_Certificates = [],
     t_VerifiedChains = []\<rparr>"

definition peer_leaf :: "transport option \<Rightarrow> cert option" where
  "peer_leaf t =
     (case t of None \<Rightarrow> None
      | Some x \<Rightarrow> (case t_Certificates x of
            Some c # _ \<Rightarrow> if ct_Raw c = [] then None else Some c
          | _ \<Rightarrow> None))"

definition verifiedPeerChains :: "transport option \<Rightarrow> cert option list list" where
  "verifiedPeerChains t =
     (case peer_leaf t of
        None \<Rightarrow> []
      | Some c \<Rightarrow>
          filter (\<lambda>chain. case chain of Some d # _ \<Rightarrow> ct_Raw d = ct_Raw c | _ \<Rightarrow> False)
            (t_VerifiedChains (the t)))"

definition ModeMaintenance :: string where "ModeMaintenance = ''Maintenance''"
definition ModeMachine :: string where "ModeMachine = ''Machine''"

text \<open>\<open>parseQuery\<close>; \<open>q\<close> is \<open>url.Values.Get\<close>.\<close>

definition parseQuery :: "transport \<Rightarrow> (string \<Rightarrow> string) \<Rightarrow> transport result" where
  "parseQuery t q =
     (let m = q ''mode''
      in if m = [] then Inr (t\<lparr>t_Platform := q ''Platform''\<rparr>)
         else if m = ModeMaintenance \<or> m = ModeMachine
           then Inr (t\<lparr>t_Mode := m, t_Platform := q ''Platform''\<rparr>)
         else Inl [Mdm_ErrMode])"

definition TrimSuffix :: "string \<Rightarrow> string \<Rightarrow> string" where
  "TrimSuffix s suf = (if suffix suf s then take (length s - length suf) s else s)"

definition ParseGenericAlerts :: "string \<Rightarrow> string list" where
  "ParseGenericAlerts v =
     filter (\<lambda>p. p \<noteq> [])
       (map (\<lambda>part. TrimSpace (TrimSuffix (TrimSpace part) ''>'')) (Split CHR ''<'' v))"

section \<open>Identities and credentials\<close>

definition AuthCertificate :: string where "AuthCertificate = ''certificate''"
definition AuthDigest :: string where "AuthDigest = ''md5''"
definition AuthBasic :: string where "AuthBasic = ''basic''"

lemmas auth_types = AuthCertificate_def AuthDigest_def AuthBasic_def

record identity =
  id_DeviceID :: string
  id_EnrollmentKey :: string
  id_CertificateThumbprint :: string
  id_AuthType :: string
  id_CredentialHash :: string

datatype authOutcome = authTrusted | authChallenge | authRejected

text \<open>\<open>cy_pbkdf2 password salt iterations length\<close> is \<open>pbkdf2.Key\<close> with SHA-256.\<close>

record crypto =
  cy_md5 :: "string \<Rightarrow> string"
  cy_pbkdf2 :: "string \<Rightarrow> string \<Rightarrow> nat \<Rightarrow> nat \<Rightarrow> string result"

definition basicVerifierVersion :: nat where "basicVerifierVersion = 1"
definition basicSaltSize :: nat where "basicSaltSize = 16"
definition basicIterations :: nat where "basicIterations = 600000"
definition sha256_Size :: nat where "sha256_Size = 32"
definition basicVerifierSize :: nat where "basicVerifierSize = 1 + basicSaltSize + sha256_Size"

lemmas basic_sizes = basicVerifierVersion_def basicSaltSize_def sha256_Size_def basicVerifierSize_def

text \<open>Bytes written into a zeroed slice of length \<open>n\<close>.\<close>

definition fill :: "nat \<Rightarrow> string \<Rightarrow> string" where
  "fill n b = take n (b @ replicate n (char_of (0 :: nat)))"

definition HashBasicCredential :: "crypto \<Rightarrow> (nat \<Rightarrow> string option) \<Rightarrow> string \<Rightarrow> string \<Rightarrow> string result" where
  "HashBasicCredential cy read username password =
     (if CHR '':'' \<in> set username then Inl [Mdm_ErrAuth]
      else case read basicSaltSize of
          None \<Rightarrow> Inl [Mdm_ErrAuth]
        | Some b \<Rightarrow>
            let salt = fill basicSaltSize b
            in case cy_pbkdf2 cy (username @ '':'' @ password) salt basicIterations sha256_Size of
                 Inl e \<Rightarrow> Inl (Mdm_ErrAuth # e)
               | Inr key \<Rightarrow> Inr (char_of basicVerifierVersion # salt @ fill sha256_Size key))"

definition VerifyBasicCredential :: "crypto \<Rightarrow> string \<Rightarrow> string \<Rightarrow> string \<Rightarrow> bool" where
  "VerifyBasicCredential cy verifier username password =
     (if length verifier \<noteq> basicVerifierSize \<or> byte (hd verifier) \<noteq> basicVerifierVersion
         \<or> CHR '':'' \<in> set username then False
      else case cy_pbkdf2 cy (username @ '':'' @ password) (take basicSaltSize (tl verifier))
               basicIterations sha256_Size of
          Inl e \<Rightarrow> False
        | Inr key \<Rightarrow> key = drop (1 + basicSaltSize) verifier)"

definition verifyCredential :: "crypto \<Rightarrow> identity \<Rightarrow> cred option \<Rightarrow> string \<Rightarrow> bool" where
  "verifyCredential cy i c nonce =
     (case c of
        None \<Rightarrow> False
      | Some cr \<Rightarrow>
          if id_AuthType i = AuthDigest then
            m_Type (cr_Meta cr) = AuthMD5Type \<and> nonce \<noteq> [] \<and> id_CredentialHash i \<noteq> []
            \<and> VerifyMD5 (cy_md5 cy) (TrimSpace (cr_Data cr)) (id_CredentialHash i) nonce
          else if id_AuthType i = AuthBasic then
            m_Type (cr_Meta cr) = AuthBasicType
            \<and> (case ParseBasicCredential (cr_Data cr) of
                 Inl e \<Rightarrow> False
               | Inr (u, p) \<Rightarrow> VerifyBasicCredential cy (id_CredentialHash i) u p)
          else False)"

section \<open>Nonces\<close>

text \<open>\<open>strings.Map\<close> over the runes of the device identifier.\<close>

function map_printable :: "string \<Rightarrow> string" where
  "map_printable s =
     (if s = [] then []
      else let r = fst (DecodeRune s); w = snd (DecodeRune s)
           in (if r \<le> 32 \<or> 126 < r then CHR ''_'' else hd s) # map_printable (drop w s))"
  by pat_completeness auto
termination
  by (relation "measure length") (use DecodeRune_width in \<open>auto simp: Suc_le_eq\<close>)

declare map_printable.simps [simp del]

definition nonceKey :: "string \<Rightarrow> string" where
  "nonceKey deviceID = ''mdm/nonce/'' @ map_printable deviceID"

definition fmtNonceErr :: "error \<Rightarrow> error" where
  "fmtNonceErr e = Mdm_ErrAuth # e"

text \<open>\<open>currentNonce\<close>: the empty string is the nil slice. \<open>ctx\<close> is \<open>ctx.Err()\<close> in the store.\<close>

definition currentNonce :: "records \<Rightarrow> time \<Rightarrow> error option \<Rightarrow> string \<Rightarrow> string" where
  "currentNonce rs now ctx deviceID =
     (case mem_Get rs ctx (nonceKey deviceID) of
        Inl e \<Rightarrow> []
      | Inr r \<Rightarrow> if \<not> IsZero (sr_ExpiresAt r) \<and> sr_ExpiresAt r \<le> now then [] else sr_Value r)"

text \<open>\<open>issueNonce\<close>; \<open>now\<close> is the store's clock, \<open>ctx0\<close>, \<open>ctxp\<close> and \<open>ctx1\<close> are \<open>ctx.Err()\<close> at the
  start of the update, in the put and at the commit.\<close>

definition issueNonce :: "records \<Rightarrow> time \<Rightarrow> duration \<Rightarrow> error option \<Rightarrow> error option \<Rightarrow> error option
    \<Rightarrow> (nat \<Rightarrow> string option) \<Rightarrow> string \<Rightarrow> records \<times> string result" where
  "issueNonce rs now ttl ctx0 ctxp ctx1 read deviceID =
     (case NewNonce read 16 of
        Inl e \<Rightarrow> (rs, Inl (fmtNonceErr e))
      | Inr nonce \<Rightarrow>
          (let key = nonceKey deviceID
           in case mem_Update rs now ctx0 ctx1 [key]
                (Some (\<lambda>t. tx_Put t ctxp \<lparr>sr_Key = key, sr_Value = nonce, sr_ExpiresAt = tx_now t + ttl\<rparr>)) of
             (rs', Inl e) \<Rightarrow> (rs', Inl (fmtNonceErr e))
           | (rs', Inr _) \<Rightarrow> (rs', Inr nonce)))"

section \<open>Facts\<close>

lemma fill_length [simp]: "length (fill n b) = n"
  by (simp add: fill_def)

lemma fill_exact [simp]: "length b = n \<Longrightarrow> fill n b = b"
  by (simp add: fill_def)

text \<open>An issued nonce is one write to the store.\<close>

lemma issueNonce_ok:
  assumes "records_inv rs" "issueNonce rs now ttl c0 cp c1 read d = (rs', Inr nonce)"
  shows "read 16 = Some nonce \<and> ValidKey (nonceKey d) \<and> records_inv rs'
    \<and> map_of rs' = (map_of rs)(nonceKey d \<mapsto>
        \<lparr>sr_Key = nonceKey d, sr_Value = nonce, sr_ExpiresAt = now + ttl\<rparr>)"
proof -
  let ?r = "\<lparr>sr_Key = nonceKey d, sr_Value = nonce, sr_ExpiresAt = now + ttl\<rparr>"
  obtain t where t: "tx_Put (new_tx rs now) cp \<lparr>sr_Key = nonceKey d, sr_Value = nonce,
      sr_ExpiresAt = tx_now (new_tx rs now) + ttl\<rparr> = Inr t" "rs' = commit (tx_writes t) rs"
    and rd: "read 16 = Some nonce"
    using assms(2)
    by (auto simp: issueNonce_def mem_Update_def NewNonce_def Let_def split: option.splits sum.splits prod.splits if_splits)
  from t(1) have "cp = None" "ValidKey (nonceKey d)"
    by (auto simp: tx_Put_def split: option.splits if_splits)
  then have "tx_Put (new_tx rs now) None ?r = Inr t"
    using t(1) by (simp add: new_tx_def)
  from tx_Put_view [OF this new_tx_inv [OF assms(1)]] have v:
    "tx_inv t" "tx_records t = rs" "tx_view t = (map_of rs)(nonceKey d \<mapsto> ?r)" by simp_all
  then have "records_inv rs'" "map_of rs' = tx_view t"
    using t(2) commit_inv commit_view [OF v(1)] by (auto simp: tx_inv_def)
  then show ?thesis
    using v rd \<open>ValidKey (nonceKey d)\<close> by simp
qed

lemma issueNonce_err:
  "issueNonce rs now ttl c0 cp c1 read d = (rs', Inl e) \<Longrightarrow> rs' = rs \<and> errors_is e Mdm_ErrAuth"
  by (auto simp: issueNonce_def mem_Update_def Let_def fmtNonceErr_def errors_is_def
      split: option.splits sum.splits prod.splits if_splits)

lemma currentNonce_view:
  "currentNonce rs now None d =
     (if \<not> ValidKey (nonceKey d) then []
      else case map_of rs (nonceKey d) of
          None \<Rightarrow> []
        | Some r \<Rightarrow> if \<not> IsZero (sr_ExpiresAt r) \<and> sr_ExpiresAt r \<le> now then [] else sr_Value r)"
  by (auto simp: currentNonce_def mem_Get_def tx_Get_view split: option.split)

section \<open>Properties\<close>


text \<open>A derivation function that pads the password to the length asked for, and a digest that prefixes.\<close>

definition sample_crypto :: crypto where
  "sample_crypto = \<lparr>cy_md5 = (\<lambda>s. ''d'' @ s), cy_pbkdf2 = (\<lambda>pw salt n l. Inr (fill l pw))\<rparr>"


text \<open>
  C16. The MD5 exchange end to end. Once the server has issued a nonce to a device, the client that
  answers the challenge it travels in with the right user name and password is verified against
  the stored hash as long as the nonce's life has not passed, and from then on the server has no
  nonce, so no digest credential is accepted. Issuing does not touch the nonce of a device with
  another key. The digest is assumed nonempty, as MD5's is, and the random source to return what
  it was asked for.
\<close>

theorem nonce_exchange:
  assumes "records_inv rs" "issueNonce rs now ttl c0 cp c1 read d = (rs', Inr nonce)"
    and digest: "\<And>s. cy_md5 cy s \<noteq> []" and random: "\<And>b. read 16 = Some b \<Longrightarrow> length b = 16"
    and clock: "0 < now + ttl"
    and i: "id_AuthType i = AuthDigest" "id_CredentialHash i = CredentialHash (cy_md5 cy) u p"
  shows "chal_Nonce (Some (NewMD5Chal nonce)) = Inr nonce
    \<and> currentNonce rs' t None d = (if t < now + ttl then nonce else [])
    \<and> (verifyCredential cy i (Some (NewMD5Cred (MD5Digest (cy_md5 cy) u p nonce))) (currentNonce rs' t None d)
        \<longleftrightarrow> t < now + ttl)
    \<and> (nonceKey d' = nonceKey d \<or> currentNonce rs' t None d' = currentNonce rs t None d')"
proof -
  note ok = issueNonce_ok [OF assms(1,2)]
  then have ne: "nonce \<noteq> []" using random by force
  have cur: "currentNonce rs' t None d = (if t < now + ttl then nonce else [])"
    using ok clock by (simp add: currentNonce_view IsZero_def)
  have "verifyCredential cy i (Some (NewMD5Cred (MD5Digest (cy_md5 cy) u p nonce))) n \<longleftrightarrow> n = nonce"
    if "n = nonce \<or> n = []" for n
    using that ne i digest
    by (auto simp: verifyCredential_def NewMD5Cred_def VerifyMD5_def MD5Digest_def CredentialHash_def
        MD5DigestFromHash_def TrimSpace_b64 zero_defs)
  then show ?thesis
    using ok cur ne by (auto simp: chal_Nonce_def NewMD5Chal_def b64_decode_encode currentNonce_view
        TrimSpace_b64 zero_defs split: option.splits)
qed

theorem nonce_exchange_witness:
  "\<exists>rs' nonce. issueNonce [] 5 600 None None None (\<lambda>n. Some (replicate n CHR ''n'')) ''dev'' = (rs', Inr nonce)
     \<and> currentNonce rs' 604 None ''dev'' = nonce \<and> currentNonce rs' 605 None ''dev'' = []"
proof -
  let ?i = "\<lparr>id_DeviceID = ''dev'', id_EnrollmentKey = [], id_CertificateThumbprint = [],
    id_AuthType = AuthDigest, id_CredentialHash = CredentialHash (cy_md5 sample_crypto) ''u'' ''p''\<rparr>"
  have "map_printable ''dev'' = ''dev''" by (simp add: map_printable.simps)
  then have "ValidKey (nonceKey ''dev'')" by (simp add: nonceKey_def ValidKey_def)
  then obtain rs' where
    u: "issueNonce [] 5 600 None None None (\<lambda>n. Some (replicate n CHR ''n'')) ''dev'' = (rs', Inr (replicate 16 CHR ''n''))"
    by (simp add: issueNonce_def NewNonce_def mem_Update_def tx_Put_def Let_def)
  have "records_inv []" by (simp add: records_inv_def)
  from nonce_exchange [OF this u, of sample_crypto ?i "''u''" "''p''" 604]
    nonce_exchange [OF this u, of sample_crypto ?i "''u''" "''p''" 605] u
  show ?thesis by (simp add: sample_crypto_def)
qed

end
