(* ===== verification/Go_Monad.thy ===== *)
theory Go_Monad
  imports Go_Prelude
begin

text \<open>
  Go functions that change state and return an error: a state transformer that always yields the
  state it has reached, together with the result. Unlike a transaction, a failing call keeps the
  changes made before the failure. Programs are composed with \<open>abind\<close>; \<open>wp\<close> is the weakest
  precondition for a postcondition on normal and one on error return.
\<close>

type_synonym ('w, 'a) action = "'w \<Rightarrow> 'w \<times> 'a result"

named_theorems wp_simps \<open>weakest preconditions of the program constructs\<close>

definition areturn :: "'a \<Rightarrow> ('w, 'a) action" where
  "areturn x w = (w, Inr x)"

definition athrow :: "error \<Rightarrow> ('w, 'a) action" where
  "athrow e w = (w, Inl e)"

definition abind :: "('w, 'a) action \<Rightarrow> ('a \<Rightarrow> ('w, 'b) action) \<Rightarrow> ('w, 'b) action" where
  "abind m f w = (case m w of (w', Inl e) \<Rightarrow> (w', Inl e) | (w', Inr x) \<Rightarrow> f x w')"

definition aget :: "('w \<Rightarrow> 'a) \<Rightarrow> ('w, 'a) action" where
  "aget f w = (w, Inr (f w))"

definition amodify :: "('w \<Rightarrow> 'w) \<Rightarrow> ('w, unit) action" where
  "amodify f w = (f w, Inr ())"

text \<open>A loop over a list whose body may fail and so leave it.\<close>

fun afor :: "('a \<Rightarrow> ('w, unit) action) \<Rightarrow> 'a list \<Rightarrow> ('w, unit) action" where
  "afor f [] = areturn ()"
| "afor f (x # xs) = abind (f x) (\<lambda>_. afor f xs)"

text \<open>What runs when the function returns with an error.\<close>

definition aon_error :: "('w \<Rightarrow> 'w) \<Rightarrow> ('w, 'a) action \<Rightarrow> ('w, 'a) action" where
  "aon_error f m w = (case m w of (w', Inl e) \<Rightarrow> (f w', Inl e) | (w', Inr x) \<Rightarrow> (w', Inr x))"

definition wp :: "('w, 'a) action \<Rightarrow> ('a \<Rightarrow> 'w \<Rightarrow> bool) \<Rightarrow> (error \<Rightarrow> 'w \<Rightarrow> bool) \<Rightarrow> 'w \<Rightarrow> bool" where
  "wp m Q E w = (case m w of (w', Inl e) \<Rightarrow> E e w' | (w', Inr x) \<Rightarrow> Q x w')"

lemma wp_areturn [wp_simps]: "wp (areturn x) Q E w = Q x w"
  by (simp add: wp_def areturn_def)

lemma wp_athrow [wp_simps]: "wp (athrow e) Q E w = E e w"
  by (simp add: wp_def athrow_def)

lemma wp_aget [wp_simps]: "wp (aget f) Q E w = Q (f w) w"
  by (simp add: wp_def aget_def)

lemma wp_amodify [wp_simps]: "wp (amodify f) Q E w = Q () (f w)"
  by (simp add: wp_def amodify_def)

lemma wp_abind [wp_simps]: "wp (abind m f) Q E w = wp m (\<lambda>x. wp (f x) Q E) E w"
  by (auto simp: wp_def abind_def split: prod.split sum.split)

lemma wp_abind_ok: "m w = (w', Inr x) \<Longrightarrow> wp (abind m f) Q E w = wp (f x) Q E w'"
  by (simp add: wp_def abind_def)

text \<open>Running a step whose result is known.\<close>

lemma abind_ok: "m w = (w', Inr x) \<Longrightarrow> abind m f w = f x w'"
  by (simp add: abind_def)

lemma abind_err: "m w = (w', Inl e) \<Longrightarrow> abind m f w = (w', Inl e)"
  by (simp add: abind_def)

lemma abind_run [simp]:
  "abind (aget f) g w = g (f w) w" "abind (areturn x) g w = g x w" "abind (amodify h) k w = k () (h w)"
  "abind (athrow e) g w = (w, Inl e)"
  by (simp_all add: abind_def aget_def areturn_def amodify_def athrow_def)

lemma wp_aon_error [wp_simps]: "wp (aon_error f m) Q E w = wp m Q (\<lambda>e w. E e (f w)) w"
  by (auto simp: wp_def aon_error_def split: prod.split sum.split)

lemma wp_if [wp_simps]: "wp (if b then m else n) Q E w = (if b then wp m Q E w else wp n Q E w)"
  by simp

lemma wp_mono:
  assumes "wp m Q E w" "\<And>x w. Q x w \<Longrightarrow> Q' x w" "\<And>e w. E e w \<Longrightarrow> E' e w"
  shows "wp m Q' E' w"
  using assms by (auto simp: wp_def split: prod.splits sum.splits)

lemma wp_conj: "wp m (\<lambda>x w. Q x w \<and> Q' x w) (\<lambda>e w. E e w \<and> E' e w) w \<longleftrightarrow> wp m Q E w \<and> wp m Q' E' w"
  by (auto simp: wp_def split: prod.splits sum.splits)

lemma wp_result:
  "wp m Q E w \<longleftrightarrow> (\<forall>w' x. m w = (w', Inr x) \<longrightarrow> Q x w') \<and> (\<forall>w' e. m w = (w', Inl e) \<longrightarrow> E e w')"
  by (auto simp: wp_def split: prod.splits sum.splits)

text \<open>A step keeps \<open>I\<close> when it holds afterwards however the step returns.\<close>

definition keeps :: "('w \<Rightarrow> bool) \<Rightarrow> ('w, 'a) action \<Rightarrow> bool" where
  "keeps I m = (\<forall>w. I w \<longrightarrow> I (fst (m w)))"

named_theorems keeps_intro \<open>composition rules for kept invariants\<close>

lemma keepsD: "keeps I m \<Longrightarrow> I w \<Longrightarrow> I (fst (m w))"
  by (simp add: keeps_def)

lemma keeps_areturn [keeps_intro]: "keeps I (areturn x)"
  by (simp add: keeps_def areturn_def)

lemma keeps_athrow [keeps_intro]: "keeps I (athrow e)"
  by (simp add: keeps_def athrow_def)

lemma keeps_aget [keeps_intro]: "keeps I (aget f)"
  by (simp add: keeps_def aget_def)

lemma keeps_amodify [keeps_intro]: "(\<And>w. I w \<Longrightarrow> I (f w)) \<Longrightarrow> keeps I (amodify f)"
  by (simp add: keeps_def amodify_def)

lemma keeps_abind [keeps_intro]: "keeps I m \<Longrightarrow> (\<And>x. keeps I (f x)) \<Longrightarrow> keeps I (abind m f)"
  by (fastforce simp: keeps_def abind_def split: prod.split sum.split)

lemma keeps_aon_error [keeps_intro]: "keeps I m \<Longrightarrow> (\<And>w. I w \<Longrightarrow> I (f w)) \<Longrightarrow> keeps I (aon_error f m)"
  by (fastforce simp: keeps_def aon_error_def split: prod.split sum.split)

lemma keeps_if [keeps_intro]: "(b \<Longrightarrow> keeps I m) \<Longrightarrow> (\<not> b \<Longrightarrow> keeps I n) \<Longrightarrow> keeps I (if b then m else n)"
  by simp

lemma keeps_option [keeps_intro]:
  "(x = None \<Longrightarrow> keeps I m) \<Longrightarrow> (\<And>y. x = Some y \<Longrightarrow> keeps I (f y)) \<Longrightarrow> keeps I (case x of None \<Rightarrow> m | Some y \<Rightarrow> f y)"
  by (cases x) auto

lemma keeps_sum [keeps_intro]:
  "(\<And>e. x = Inl e \<Longrightarrow> keeps I (g e)) \<Longrightarrow> (\<And>y. x = Inr y \<Longrightarrow> keeps I (f y)) \<Longrightarrow>
     keeps I (case x of Inl e \<Rightarrow> g e | Inr y \<Rightarrow> f y)"
  by (cases x) auto

lemma keeps_prod [keeps_intro]: "(\<And>a b. x = (a, b) \<Longrightarrow> keeps I (f a b)) \<Longrightarrow> keeps I (case x of (a, b) \<Rightarrow> f a b)"
  by (cases x) auto

lemma keeps_afor [keeps_intro]: "(\<And>x. x \<in> set xs \<Longrightarrow> keeps I (f x)) \<Longrightarrow> keeps I (afor f xs)"
  by (induction xs) (auto intro!: keeps_intro)

lemma keeps_wp: "(\<And>w. I w \<Longrightarrow> wp m (\<lambda>_. I) (\<lambda>_. I) w) \<Longrightarrow> keeps I m"
  by (fastforce simp: keeps_def wp_def case_prod_beta split: sum.splits)

end
