(* ===== verification/Mdm_Service.thy ===== *)
theory Mdm_Service
  imports Go_Monad Syncml_Encode Syncml_Response Mdm_Session Mdm_Auth
begin

text \<open>
  The session engine, \<open>service.go\<close>, \<open>alerts.go\<close>, \<open>results.go\<close>, \<open>collect.go\<close>, \<open>deliver.go\<close>, \<open>build.go\<close>,
  \<open>finish.go\<close> and \<open>hooks.go\<close> of \<open>mdmprotocol/mdm\<close>: what one request does to the queue, the
  sessions, the nonces and the hooks, and the reply it gets.

  The interfaces of \<open>Config\<close> are records of functions over the state of their implementation. The
  n-th reading of the clock, of \<open>ctx.Err()\<close> and of the random source is the value of a function at
  n. A hook is a function of the calls made before and of the call, which says whether it fails;
  the calls are logged in order.
\<close>

section \<open>Configuration and state\<close>

record event =
  ev_DeviceID :: string
  ev_SessionID :: string
  ev_Alert :: int
  ev_Type :: string
  ev_Data :: string
  ev_Mark :: string
  ev_Source :: string

datatype hook_call =
    PackageOne string string facts
  | GenericAlert event
  | ClientEvent event
  | Unenrolled string

record authenticator =
  au_Lookup :: "string \<Rightarrow> identity result"
  au_TrustCertificate :: "identity \<Rightarrow> cert option list list \<Rightarrow> bool"

record ('q, 's) config =
  cfg_ServerURL :: string
  cfg_Auth :: authenticator
  cfg_Queue :: "'q queue_ops"
  cfg_Sessions :: "'s session_ops"
  cfg_Hooks :: "(hook_call list \<Rightarrow> hook_call \<Rightarrow> error option) option"
  cfg_Clock :: "nat \<Rightarrow> time"
  cfg_Ctx :: "nat \<Rightarrow> error option"
  cfg_Rand :: "nat \<Rightarrow> nat \<Rightarrow> string option"
  cfg_Crypto :: crypto
  cfg_MaxRequestSize :: int
  cfg_NonceTTL :: duration
  cfg_MaxMessageBytes :: int
  cfg_AllowBasic :: bool
  cfg_ProviderID :: string

text \<open>\<open>New\<close>: \<open>auth\<close> and \<open>queue\<close> say whether those fields are set.\<close>

definition New :: "bool \<Rightarrow> bool \<Rightarrow> ('q, 's) config \<Rightarrow> ('q, 's) config result" where
  "New auth queue cfg =
     (if cfg_ServerURL cfg = [] then Inl [Mdm_ErrConfig]
      else if \<not> auth \<or> \<not> queue then Inl [Mdm_ErrConfig]
      else Inr (cfg\<lparr>
        cfg_MaxRequestSize := (if cfg_MaxRequestSize cfg \<le> 0 then DefaultMaxSize else cfg_MaxRequestSize cfg),
        cfg_NonceTTL := (if cfg_NonceTTL cfg \<le> 0 then 600 * 10 ^ 9 else cfg_NonceTTL cfg),
        cfg_MaxMessageBytes := (if cfg_MaxMessageBytes cfg \<le> 0 then 512 * 2 ^ 10 else cfg_MaxMessageBytes cfg)\<rparr>))"

text \<open>The state of the service between two requests.\<close>

record ('q, 's) world =
  w_queue :: 'q
  w_sessions :: 's
  w_nonces :: records
  w_hooks :: "hook_call list"
  w_ticks :: nat

text \<open>
  The state while a request is handled: the session as it was loaded (\<open>None\<close> for a new one), the
  object in flight that the stored session points to, the working copy, the reply and the counter
  of command identifiers.
\<close>

record ('q, 's) engine = "('q, 's) world" +
  e_loaded :: "session option"
  e_out :: "outgoing option"
  e_sess :: session
  e_resp :: message
  e_ids :: nat

type_synonym ('q, 's, 'a) step = "(('q, 's) engine, 'a) action"

definition with_sess :: "(session \<Rightarrow> session) \<Rightarrow> ('q, 's, unit) step" where
  "with_sess f = amodify (\<lambda>e. e\<lparr>e_sess := f (e_sess e)\<rparr>)"

definition clock_now :: "('q, 's) config \<Rightarrow> ('q, 's, time) step" where
  "clock_now cfg e = (e\<lparr>w_ticks := w_ticks e + 1\<rparr>, Inr (cfg_Clock cfg (w_ticks e)))"

definition add_command :: "command \<Rightarrow> message \<Rightarrow> message" where
  "add_command c m = m\<lparr>msg_Body := (msg_Body m)\<lparr>b_Commands := b_Commands (msg_Body m) @ [c]\<rparr>\<rparr>"

definition set_final :: "bool \<Rightarrow> message \<Rightarrow> message" where
  "set_final b m = m\<lparr>msg_Body := (msg_Body m)\<lparr>b_Final := b\<rparr>\<rparr>"

text \<open>Append a command with the next identifier to the reply.\<close>

definition reply :: "(string \<Rightarrow> command) \<Rightarrow> ('q, 's, unit) step" where
  "reply mk =
     amodify (\<lambda>e. case CmdIDs_Next (e_ids e) of (n, i) \<Rightarrow>
       e\<lparr>e_ids := n, e_resp := add_command (mk i) (e_resp e)\<rparr>)"

definition call_hook :: "('q, 's) config \<Rightarrow> hook_call \<Rightarrow> ('q, 's, unit) step" where
  "call_hook cfg h e =
     (case cfg_Hooks cfg of
        None \<Rightarrow> (e, Inr ())
      | Some f \<Rightarrow> (e\<lparr>w_hooks := w_hooks e @ [h]\<rparr>,
          case f (w_hooks e) h of None \<Rightarrow> Inr () | Some err \<Rightarrow> Inl err))"

definition enqueue_at :: "('q, 's) config \<Rightarrow> mcmd \<Rightarrow> time \<Rightarrow> ('q, 's, qcmd) step" where
  "enqueue_at cfg cmd at e =
     (case qo_Enqueue (cfg_Queue cfg) (w_queue e) (ss_DeviceID (e_sess e)) (Some cmd) at of (q, r) \<Rightarrow>
        (e\<lparr>w_queue := q\<rparr>, r))"

definition enqueue :: "('q, 's) config \<Rightarrow> mcmd \<Rightarrow> ('q, 's, qcmd) step" where
  "enqueue cfg cmd =
     abind (clock_now cfg) (enqueue_at cfg cmd)"

section \<open>Finding the session\<close>

definition firstNonEmpty :: "string list \<Rightarrow> string" where
  "firstNonEmpty vs = (case filter (\<lambda>v. v \<noteq> []) vs of [] \<Rightarrow> [] | v # _ \<Rightarrow> v)"

definition take_header :: "message \<Rightarrow> transport option \<Rightarrow> int \<Rightarrow> time \<Rightarrow> session \<Rightarrow> session" where
  "take_header req t clientMsg seen sess =
     (let s1 = sess\<lparr>ss_ClientMsgID := clientMsg, ss_LastSeen := seen\<rparr>;
          s2 = (case h_Meta (msg_Header req) of
                  None \<Rightarrow> s1
                | Some mt \<Rightarrow>
                    s1\<lparr>ss_MaxMsgSize := (if 0 < m_MaxMsgSize mt then m_MaxMsgSize mt else ss_MaxMsgSize s1),
                       ss_MaxObjSize := (if 0 < m_MaxObjSize mt then m_MaxObjSize mt else ss_MaxObjSize s1)\<rparr>)
      in case t of
           None \<Rightarrow> s2
         | Some tr \<Rightarrow> s2\<lparr>ss_Facts := (ss_Facts s2)\<lparr>f_UserAgentOrigin :=
             firstNonEmpty [t_UserAgentOrigin tr, f_UserAgentOrigin (ss_Facts s2)]\<rparr>\<rparr>)"

definition new_session :: "message \<Rightarrow> identity \<Rightarrow> time \<Rightarrow> session" where
  "new_session req i at =
     zero_session\<lparr>ss_Key := SessionKey (l_LocURI (h_Source (msg_Header req))) (h_SessionID (msg_Header req)),
       ss_DeviceID := l_LocURI (h_Source (msg_Header req)), ss_SessionID := h_SessionID (msg_Header req),
       ss_EnrollmentKey := id_EnrollmentKey i, ss_Namespace := msg_Namespace req,
       ss_StartedAt := at, ss_LastSeen := at\<rparr>"

text \<open>\<open>session\<close>: the session as loaded, and the one to work on.\<close>

definition session_for :: "('q, 's) config \<Rightarrow> message \<Rightarrow> identity \<Rightarrow> transport option
    \<Rightarrow> (('q, 's) world, session option \<times> session) action" where
  "session_for cfg req i t w =
     (let key = SessionKey (l_LocURI (h_Source (msg_Header req))) (h_SessionID (msg_Header req));
          clientMsg = fst (Atoi (h_MsgID (msg_Header req)));
          n = w_ticks w
      in case so_Get (cfg_Sessions cfg) (w_sessions w) (cfg_Clock cfg n) key of (st, got) \<Rightarrow>
        let w' = w\<lparr>w_sessions := st, w_ticks := n + 3\<rparr>;
            seen = cfg_Clock cfg (n + 2)
        in case (case got of Inl err \<Rightarrow> Inl err
                 | Inr s \<Rightarrow> if ss_EnrollmentKey s \<noteq> id_EnrollmentKey i then Inl [Mdm_ErrNotFound] else Inr s) of
             Inl err \<Rightarrow>
               if errors_is err Mdm_ErrNotFound then
                 if clientMsg \<noteq> 1 then (w', Inl [Syncml_ErrInvalid])
                 else if \<not> IsPackageOne req then (w', Inl [Syncml_ErrInvalid])
                 else (w', Inr (None, take_header req t clientMsg seen (new_session req i (cfg_Clock cfg (n + 1)))))
               else (w', Inl err)
           | Inr s \<Rightarrow>
               if clientMsg \<noteq> wrap64 (ss_ClientMsgID s + 1) then (w', Inl [Syncml_ErrInvalid])
               else (w', Inr (Some s, take_header req t clientMsg seen s)))"

section \<open>Authentication\<close>

definition authenticate :: "('q, 's) config \<Rightarrow> message \<Rightarrow> identity \<Rightarrow> transport option
    \<Rightarrow> ('q, 's, authOutcome) step" where
  "authenticate cfg req i t e =
     (let sess = e_sess e; chains = verifiedPeerChains t; n = w_ticks e
      in if ss_Authenticated sess \<and> ss_AuthType sess \<noteq> AuthCertificate then (e, Inr authTrusted)
         else if chains \<noteq> [] \<and> au_TrustCertificate (cfg_Auth cfg) i chains
           then (e\<lparr>e_sess := sess\<lparr>ss_Authenticated := True, ss_AuthType := AuthCertificate\<rparr>\<rparr>, Inr authTrusted)
         else
           let sess1 = (if ss_AuthType sess = AuthCertificate
                        then sess\<lparr>ss_Authenticated := False, ss_AuthType := []\<rparr> else sess);
               e1 = e\<lparr>e_sess := sess1, w_ticks := n + 1\<rparr>
           in if id_AuthType i = AuthBasic \<and> \<not> cfg_AllowBasic cfg then (e1, Inr authChallenge)
              else if h_Cred (msg_Header req) = None then (e1, Inr authChallenge)
              else if verifyCredential (cfg_Crypto cfg) i (h_Cred (msg_Header req))
                     (currentNonce (w_nonces e) (cfg_Clock cfg n) (cfg_Ctx cfg n) (id_DeviceID i))
                then (e1\<lparr>e_sess := sess1\<lparr>ss_Authenticated := True, ss_AuthType := id_AuthType i\<rparr>\<rparr>, Inr authTrusted)
              else (e1, Inr authRejected))"

definition issue_nonce :: "('q, 's) config \<Rightarrow> string \<Rightarrow> ('q, 's, string) step" where
  "issue_nonce cfg deviceID e =
     (let n = w_ticks e
      in case issueNonce (w_nonces e) (cfg_Clock cfg n) (cfg_NonceTTL cfg) (cfg_Ctx cfg n) (cfg_Ctx cfg (n + 1))
           (cfg_Ctx cfg (n + 2)) (cfg_Rand cfg n) deviceID of (rs, r) \<Rightarrow>
         (e\<lparr>w_nonces := rs, w_ticks := n + 3\<rparr>, r))"

text \<open>\<open>challenge\<close>: nothing else draws an identifier while the nonce is issued.\<close>

definition challenge :: "('q, 's) config \<Rightarrow> message \<Rightarrow> identity \<Rightarrow> authOutcome \<Rightarrow> ('q, 's, unit) step" where
  "challenge cfg req i outcome =
     (let code = (if outcome = authRejected then StatusInvalidCredentials else StatusAuthenticationRequired);
          answer = (\<lambda>ch. abind (reply (\<lambda>cid. Status ((StatusForHeader req cid code)\<lparr>s_Chal := Some ch\<rparr>)))
            (\<lambda>_. with_sess (\<lambda>s. s\<lparr>ss_Challenged := ss_Challenged s + 1\<rparr>)))
      in if id_AuthType i = AuthBasic then answer NewBasicChal
         else abind (issue_nonce cfg (id_DeviceID i)) (\<lambda>nonce. answer (NewMD5Chal nonce)))"

section \<open>Filing answers\<close>

definition fileStatus :: "session \<Rightarrow> status \<Rightarrow> session" where
  "fileStatus sess st =
     (if s_CmdRef st = ''0'' then sess
      else let key = s_MsgRef st @ ''/'' @ s_CmdRef st
           in case map_of (ss_Children sess) key of
                Some parent \<Rightarrow>
                  (recordChild sess parent st)\<lparr>ss_Children := AList.delete key (ss_Children sess)\<rparr>
              | None \<Rightarrow>
                  (case map_of (ss_Sent sess) key of
                     None \<Rightarrow> sess
                   | Some i \<Rightarrow>
                       let s1 = pendingStatus sess i st
                       in if ss_AssemblingCommand s1 \<noteq> i
                          then s1\<lparr>ss_Sent := AList.delete key (ss_Sent s1)\<rparr> else s1))"

text \<open>The loop of \<open>fileResults\<close>: the assembled items so far, the assembler and the command being
  assembled.\<close>

fun assemble_items :: "string \<Rightarrow> item list \<Rightarrow> session \<Rightarrow> assembler \<Rightarrow> session \<times> item list result" where
  "assemble_items i [] sess a = (sess\<lparr>ss_Assembler := Some a\<rparr>, Inr [])"
| "assemble_items i (it # its) sess a =
     (case assembler_Add a it of
        (b, Inl err) \<Rightarrow> (sess\<lparr>ss_Assembler := Some b\<rparr>, Inl err)
      | (b, Inr None) \<Rightarrow> assemble_items i its (sess\<lparr>ss_AssemblingCommand := i\<rparr>) b
      | (b, Inr (Some out)) \<Rightarrow>
          (case assemble_items i its sess b of (sess', r) \<Rightarrow> (sess', rbind r (\<lambda>outs. Inr (out # outs)))))"

definition results_command :: "session \<Rightarrow> results \<Rightarrow> string option" where
  "results_command sess res =
     (let key = (if r_MsgRef res = [] then ''1'' else r_MsgRef res) @ ''/'' @ r_CmdRef res
      in case map_of (ss_Sent sess) key of Some i \<Rightarrow> Some i | None \<Rightarrow> map_of (ss_Children sess) key)"

definition fileResults :: "int \<Rightarrow> session \<Rightarrow> results \<Rightarrow> session \<times> unit result" where
  "fileResults maxRequestSize sess res =
     (case results_command sess res of
        None \<Rightarrow> (sess, Inr ())
      | Some i \<Rightarrow>
          (case assemble_items i (r_Items res) sess
                  (case ss_Assembler sess of None \<Rightarrow> new_assembler maxRequestSize | Some a \<Rightarrow> a) of
             (s1, Inl err) \<Rightarrow> (s1, Inl err)
           | (s1, Inr outs) \<Rightarrow>
               if as_pending (the (ss_Assembler s1)) then (s1, Inr ())
               else (stashResults (s1\<lparr>ss_AssemblingCommand := []\<rparr>) i outs, Inr ())))"

definition file_results :: "('q, 's) config \<Rightarrow> results \<Rightarrow> ('q, 's, unit) step" where
  "file_results cfg res e =
     (case fileResults (cfg_MaxRequestSize cfg) (e_sess e) res of (s, r) \<Rightarrow> (e\<lparr>e_sess := s\<rparr>, r))"

text \<open>The answer to one command as the queue stores it.\<close>

definition result_of :: "pending_result \<Rightarrow> time \<Rightarrow> qresult" where
  "result_of pr at =
     \<lparr>rs_Status = the (pn_status pr), rs_OriginalError = pn_origErr pr, rs_Items = pn_items pr,
      rs_Children = pn_children pr, rs_ReceivedAt = at\<rparr>"

definition store_result :: "('q, 's) config \<Rightarrow> string \<Rightarrow> qresult \<Rightarrow> ('q, 's, unit) step" where
  "store_result cfg i rs e =
     (case qo_StoreResult (cfg_Queue cfg) (w_queue e) (ss_DeviceID (e_sess e)) i rs of (q, r) \<Rightarrow>
        (e\<lparr>w_queue := q\<rparr>, r))"

definition flush_one :: "('q, 's) config \<Rightarrow> string \<times> pending_result \<Rightarrow> ('q, 's, unit) step" where
  "flush_one cfg p =
     (if pn_status (snd p) = None then areturn ()
      else abind (clock_now cfg) (\<lambda>at.
        abind (store_result cfg (fst p) (result_of (snd p) at)) (\<lambda>_.
          with_sess (\<lambda>s. s\<lparr>ss_results := map_option (AList.delete (fst p)) (ss_results s)\<rparr>))))"

definition flushResults :: "('q, 's) config \<Rightarrow> ('q, 's, unit) step" where
  "flushResults cfg =
     abind (aget (\<lambda>e. case ss_results (e_sess e) of None \<Rightarrow> [] | Some rs \<Rightarrow> rs)) (afor (flush_one cfg))"

section \<open>Alerts and package one\<close>

definition isConsumedEvent :: "item \<Rightarrow> bool" where
  "isConsumedEvent it =
     (case it_Meta it of None \<Rightarrow> False
      | Some mt \<Rightarrow> m_Type mt \<in> {AlertTypeLoginStatus, AlertTypeSyncType, AlertTypeDevicePrepSync})"

definition isUnenrollAlert :: "item \<Rightarrow> bool" where
  "isUnenrollAlert it =
     (case it_Meta it of None \<Rightarrow> False | Some mt \<Rightarrow> EqualFold (m_Type mt) AlertTypeUnenrollmentUserRequest)"

definition alert_event :: "session \<Rightarrow> int \<Rightarrow> item \<Rightarrow> event" where
  "alert_event sess code it =
     \<lparr>ev_DeviceID = ss_DeviceID sess, ev_SessionID = ss_SessionID sess, ev_Alert = code,
      ev_Type = (case it_Meta it of None \<Rightarrow> [] | Some mt \<Rightarrow> m_Type mt),
      ev_Data = data_Text (it_Data it),
      ev_Mark = (case it_Meta it of None \<Rightarrow> [] | Some mt \<Rightarrow> m_Mark mt),
      ev_Source = it_Source it\<rparr>"

definition alert_item :: "('q, 's) config \<Rightarrow> int \<Rightarrow> item \<Rightarrow> ('q, 's, unit) step" where
  "alert_item cfg code it =
     abind (aget (\<lambda>e. alert_event (e_sess e) code it)) (\<lambda>ev.
       if code = AlertGeneric then
         abind (call_hook cfg (GenericAlert ev)) (\<lambda>_.
           if isUnenrollAlert it then with_sess (\<lambda>s. s\<lparr>ss_Closed := True, ss_unenroll := True\<rparr>)
           else areturn ())
       else if code = AlertClientEvent then
         if isConsumedEvent it then areturn () else call_hook cfg (ClientEvent ev)
       else areturn ())"

definition alert_status :: "session \<Rightarrow> alert \<Rightarrow> string \<Rightarrow> status" where
  "alert_status sess a cid =
     zero_status\<lparr>s_CmdID := cid, s_MsgRef := Itoa (ss_ClientMsgID sess), s_CmdRef := a_CmdID a,
       s_Cmd := CmdAlert, s_Data := data_value (Wire StatusOK)\<rparr>"

definition handleAlert :: "('q, 's) config \<Rightarrow> alert \<Rightarrow> ('q, 's, unit) step" where
  "handleAlert cfg a =
     abind (aget e_sess) (\<lambda>sess.
     abind (reply (\<lambda>cid. Status (alert_status sess a cid))) (\<lambda>_.
       let code = alert_Code a
       in if code \<in> {AlertNextMessage, AlertServerInitiated, AlertClientInitiated} then areturn ()
          else if code = AlertSessionAbort then with_sess (\<lambda>s. s\<lparr>ss_Closed := True\<rparr>)
          else if code = AlertNoEndOfData then
            with_sess (\<lambda>s. s\<lparr>ss_Assembler := map_option assembler_Reset (ss_Assembler s),
                            ss_AssemblingCommand := []\<rparr>)
          else if cfg_Hooks cfg = None then areturn ()
          else afor (alert_item cfg code) (a_Items a)))"

definition fact_item :: "item \<Rightarrow> facts \<Rightarrow> facts" where
  "fact_item it f =
     (case it_Meta it of None \<Rightarrow> f
      | Some mt \<Rightarrow>
          if m_Type mt = AlertTypeSyncType then f\<lparr>f_SyncType := data_Text (it_Data it)\<rparr>
          else if m_Type mt = AlertTypeDevicePrepSync then f\<lparr>f_DevicePrepSync := data_Text (it_Data it)\<rparr>
          else f)"

definition package_facts :: "message \<Rightarrow> facts \<Rightarrow> facts" where
  "package_facts req f =
     fold (\<lambda>a. if alert_Code a \<noteq> AlertClientEvent then id else fold fact_item (a_Items a))
       (body_Alerts (msg_Body req))
       (f\<lparr>f_DevInfo := DevInfo req, f_LoginStatus := LoginStatus req\<rparr>)"

definition internalID :: "session \<Rightarrow> string \<Rightarrow> string" where
  "internalID sess name = ''mdm-internal/'' @ ss_DeviceID sess @ ''/'' @ name"

definition first_reads :: "string list" where
  "first_reads = [''./DevDetail/SwV'', ''./DevDetail/LrgObj'', ''./DevDetail/URI/MaxSegLen'',
     ''./Device/Vendor/MSFT/DeviceManageability/Capabilities/CSPVersions'']"

definition isConflict :: "error \<Rightarrow> bool" where
  "isConflict e = errors_is e Mdm_ErrConflict"

text \<open>A command that is already there is not an error.\<close>

definition enqueue_once :: "('q, 's) config \<Rightarrow> mcmd \<Rightarrow> ('q, 's, unit) step" where
  "enqueue_once cfg cmd e =
     (case enqueue cfg cmd e of
        (e', Inl err) \<Rightarrow> (e', if isConflict err then Inr () else Inl err)
      | (e', Inr _) \<Rightarrow> (e', Inr ()))"

text \<open>One read of the push channel, enqueued with a fresh identifier.\<close>

definition push_read :: "('q, 's) config \<Rightarrow> string \<Rightarrow> ('q, 's, unit) step" where
  "push_read cfg uri =
     (case NewGet [uri] [] of
        Inl err \<Rightarrow> athrow err
      | Inr g \<Rightarrow> abind (enqueue cfg (g\<lparr>mc_Internal := True\<rparr>)) (\<lambda>_. areturn ()))"

definition queueFirstSessionReads :: "('q, 's) config \<Rightarrow> ('q, 's, unit) step" where
  "queueFirstSessionReads cfg =
     abind (aget e_sess) (\<lambda>sess.
       case NewGet first_reads [WithID (internalID sess ''first-reads'')] of
         Inl err \<Rightarrow> athrow err
       | Inr g \<Rightarrow>
           abind (enqueue_once cfg (g\<lparr>mc_Internal := True\<rparr>)) (\<lambda>_.
             if cfg_ProviderID cfg = [] then areturn ()
                  else afor (push_read cfg)
                         [DeviceProviderPushChannelURI (cfg_ProviderID cfg),
                          DeviceProviderPushStatus (cfg_ProviderID cfg)]))"

definition recordPackageOne :: "('q, 's) config \<Rightarrow> message \<Rightarrow> ('q, 's, unit) step" where
  "recordPackageOne cfg req =
     abind (with_sess (\<lambda>s. s\<lparr>ss_Facts := package_facts req (ss_Facts s), ss_gotPackageOne := True\<rparr>)) (\<lambda>_.
     abind (aget e_sess) (\<lambda>s.
     abind (call_hook cfg (PackageOne (ss_DeviceID s) (ss_SessionID s) (ss_Facts s))) (\<lambda>_.
       if ss_Closed s then areturn () else queueFirstSessionReads cfg)))"

definition ack_command :: "('q, 's) config \<Rightarrow> message \<Rightarrow> command \<Rightarrow> ('q, 's, unit) step" where
  "ack_command cfg req c =
     (case c of
        Status _ \<Rightarrow> areturn ()
      | Results res \<Rightarrow> file_results cfg res
      | Alert a \<Rightarrow> handleAlert cfg a
      | _ \<Rightarrow> reply (\<lambda>cid. Status (StatusFor req c cid StatusOK)))"

definition ackAndFile :: "('q, 's) config \<Rightarrow> message \<Rightarrow> ('q, 's, unit) step" where
  "ackAndFile cfg req =
     abind (afor (ack_command cfg req) (b_Commands (msg_Body req))) (\<lambda>_.
     abind (with_sess (\<lambda>s. foldl fileStatus s (body_Statuses (msg_Body req)))) (\<lambda>_.
     abind (aget (\<lambda>e. ss_gotPackageOne (e_sess e))) (\<lambda>got.
       if IsPackageOne req \<and> \<not> got then recordPackageOne cfg req else areturn ())))"

section \<open>Delivery\<close>

definition scopeAllows :: "session \<Rightarrow> scope \<Rightarrow> bool" where
  "scopeAllows sess sc =
     (if f_SyncType (ss_Facts sess) = LoginStatusUser \<and> sc \<noteq> ScopeUser then False
      else if f_SyncType (ss_Facts sess) = ''device'' \<and> sc \<noteq> ScopeDevice then False
      else if sc = ScopeUser then f_LoginStatus (ss_Facts sess) = LoginStatusUser
      else True)"

fun assignID :: "command \<Rightarrow> string \<Rightarrow> command" where
  "assignID (Add c) i = Add (c\<lparr>c_CmdID := i\<rparr>)"
| "assignID (Replace c) i = Replace (c\<lparr>c_CmdID := i\<rparr>)"
| "assignID (Delete c) i = Delete (c\<lparr>c_CmdID := i\<rparr>)"
| "assignID (Get c) i = Get (c\<lparr>c_CmdID := i\<rparr>)"
| "assignID (Exec c) i = Exec (c\<lparr>c_CmdID := i\<rparr>)"
| "assignID (Atomic g cs) i = Atomic (g\<lparr>gp_CmdID := i\<rparr>) cs"
| "assignID (Sequence g cs) i = Sequence (g\<lparr>gp_CmdID := i\<rparr>) cs"
| "assignID c i = c"

fun setItems :: "command \<Rightarrow> item list \<Rightarrow> command" where
  "setItems (Add c) its = Add (c\<lparr>c_Items := its\<rparr>)"
| "setItems (Replace c) its = Replace (c\<lparr>c_Items := its\<rparr>)"
| "setItems (Delete c) its = Delete (c\<lparr>c_Items := its\<rparr>)"
| "setItems (Get c) its = Get (c\<lparr>c_Items := its\<rparr>)"
| "setItems (Exec c) its = Exec (c\<lparr>c_Items := its\<rparr>)"
| "setItems c its = c"

text \<open>\<open>cloneItems\<close> and \<open>cloneCommand\<close>: a copy with copies of what the pointers refer to.\<close>

definition cloneItems :: "item list \<Rightarrow> item list" where
  "cloneItems its =
     map (\<lambda>it. it\<lparr>it_Meta := map_option (\<lambda>mt. mt) (it_Meta it), it_Data := map_option (\<lambda>d. d) (it_Data it)\<rparr>) its"

fun cloneCommand :: "command \<Rightarrow> command" where
  "cloneCommand (Add c) = Add (c\<lparr>c_Items := cloneItems (c_Items c)\<rparr>)"
| "cloneCommand (Replace c) = Replace (c\<lparr>c_Items := cloneItems (c_Items c)\<rparr>)"
| "cloneCommand (Delete c) = Delete (c\<lparr>c_Items := cloneItems (c_Items c)\<rparr>)"
| "cloneCommand (Get c) = Get (c\<lparr>c_Items := cloneItems (c_Items c)\<rparr>)"
| "cloneCommand (Exec c) = Exec (c\<lparr>c_Items := cloneItems (c_Items c)\<rparr>)"
| "cloneCommand (Atomic g cs) = Atomic g (map cloneCommand cs)"
| "cloneCommand (Sequence g cs) = Sequence g (map cloneCommand cs)"
| "cloneCommand c = c"

text \<open>\<open>itoa\<close> of \<open>build.go\<close> on the non-negative numbers it is called with.\<close>

definition itoa :: "nat \<Rightarrow> string" where
  "itoa n = Itoa (int n)"

text \<open>The loop of \<open>mapChildren\<close>: every member gets the next identifier and is mapped to the parent.\<close>

fun map_members :: "string \<Rightarrow> string \<Rightarrow> nat \<Rightarrow> command list \<Rightarrow> (string \<times> string) list
    \<Rightarrow> (string \<times> string) list \<times> command list" where
  "map_members msgID parentID nxt [] children = (children, [])"
| "map_members msgID parentID nxt (c # cs) children =
     (let cid = itoa (nxt + 1)
      in case map_members msgID parentID (nxt + 1) cs (AList.update (msgID @ ''/'' @ cid) parentID children) of
           (children', cs') \<Rightarrow> (children', assignID c cid # cs'))"

definition mapChildren :: "session \<Rightarrow> string \<Rightarrow> command \<Rightarrow> string \<Rightarrow> session \<times> command" where
  "mapChildren sess msgID c parentID =
     (let nxt = length (ss_Sent sess) + length (ss_Children sess) + 1000;
          members = (\<lambda>cs. map_members msgID parentID nxt cs (ss_Children sess))
      in case c of
           Atomic g cs \<Rightarrow> (sess\<lparr>ss_Children := fst (members cs)\<rparr>, Atomic g (snd (members cs)))
         | Sequence g cs \<Rightarrow> (sess\<lparr>ss_Children := fst (members cs)\<rparr>, Sequence g (snd (members cs)))
         | _ \<Rightarrow> (sess, c))"

definition commandSize :: "command \<Rightarrow> int" where
  "commandSize c = (case EncodeCommand c [] of Inl _ \<Rightarrow> 0 | Inr b \<Rightarrow> int (length b))"

text \<open>\<open>prepare\<close>: the body to send and the chunks after the first.\<close>

definition prepare :: "session \<Rightarrow> qcmd \<Rightarrow> (command \<times> item list option) option" where
  "prepare sess qc =
     (case mc_Body (q_Command qc) of
        None \<Rightarrow> None
      | Some b \<Rightarrow>
          let body = cloneCommand b; limit = ss_MaxObjSize sess
          in if limit \<le> 0 then Some (body, None)
             else case itemsOf body of
                 [it] \<Rightarrow>
                   (if (case it_Data it of None \<Rightarrow> True | Some d \<Rightarrow> int (length (d_Value d)) \<le> limit)
                    then Some (body, None)
                    else case SplitItem it limit of
                        Inr (c1 # c2 # cs) \<Rightarrow> Some (setItems body [c1], Some (c2 # cs))
                      | _ \<Rightarrow> Some (body, None))
               | _ \<Rightarrow> Some (body, None))"

definition mustAtoi :: "string \<Rightarrow> int" where
  "mustAtoi s = fst (Atoi s)"

text \<open>One command into the reply: identifier, \<open>Sent\<close> entry, members, time of delivery.\<close>

definition send :: "('q, 's) config \<Rightarrow> qcmd \<Rightarrow> command \<Rightarrow> ('q, 's) engine \<Rightarrow> ('q, 's) engine \<times> delivery" where
  "send cfg qc body e =
     (case CmdIDs_Next (e_ids e) of (n, cid) \<Rightarrow>
        let msgID = h_MsgID (msg_Header (e_resp e));
            s1 = (e_sess e)\<lparr>ss_Sent := AList.update (Itoa (mustAtoi msgID) @ ''/'' @ cid) (q_ID qc) (ss_Sent (e_sess e))\<rparr>
        in case mapChildren s1 msgID (assignID body cid) (q_ID qc) of (s2, body') \<Rightarrow>
          (e\<lparr>e_ids := n, e_resp := add_command body' (e_resp e), e_sess := s2, w_ticks := w_ticks e + 1\<rparr>,
           \<lparr>dl_CommandID = q_ID qc, dl_MsgID = msgID, dl_At = cfg_Clock cfg (w_ticks e)\<rparr>))"

fun deliver_loop :: "('q, 's) config \<Rightarrow> int \<Rightarrow> delivery list \<Rightarrow> qcmd list \<Rightarrow> ('q, 's) engine
    \<Rightarrow> ('q, 's) engine \<times> delivery list" where
  "deliver_loop cfg budget ds [] e = (e, ds)"
| "deliver_loop cfg budget ds (qc # qcs) e =
     (if \<not> scopeAllows (e_sess e) (mc_Scope (q_Command qc)) then deliver_loop cfg budget ds qcs e
      else case prepare (e_sess e) qc of
          None \<Rightarrow> deliver_loop cfg budget ds qcs e
        | Some (body, chunks) \<Rightarrow>
            if budget \<le> 0 \<and> ds \<noteq> [] then (e, ds)
            else case send cfg qc body e of (e', d) \<Rightarrow>
              (case chunks of
                 Some cs \<Rightarrow>
                   (e'\<lparr>e_sess := (e_sess e')\<lparr>ss_Outgoing :=
                       Some \<lparr>og_CommandID = q_ID qc, og_Chunks = cs, og_Name = cmd_Name body\<rparr>\<rparr>\<rparr>, ds @ [d])
               | None \<Rightarrow> deliver_loop cfg (budget - commandSize body) (ds @ [d]) qcs e'))"

definition uploading :: "session \<Rightarrow> bool" where
  "uploading sess = (case ss_Assembler sess of None \<Rightarrow> False | Some a \<Rightarrow> as_pending a)"

definition fetch :: "('q, 's) config \<Rightarrow> ('q, 's, qcmd list) step" where
  "fetch cfg e = (e, qo_Deliverable (cfg_Queue cfg) (w_queue e) (ss_DeviceID (e_sess e)) 256)"

definition fill_reply :: "('q, 's) config \<Rightarrow> qcmd list \<Rightarrow> ('q, 's, delivery list) step" where
  "fill_reply cfg qcs e =
     (case deliver_loop cfg (cfg_MaxMessageBytes cfg - int (length (b_Commands (msg_Body (e_resp e)))) * 128) [] qcs e of
        (e', ds) \<Rightarrow> (e', Inr ds))"

definition mark_sent :: "('q, 's) config \<Rightarrow> delivery list \<Rightarrow> ('q, 's, unit) step" where
  "mark_sent cfg ds e =
     (if ds = [] then (e, Inr ())
      else case qo_MarkSent (cfg_Queue cfg) (w_queue e) (ss_DeviceID (e_sess e)) ds of (q, r) \<Rightarrow>
        (e\<lparr>w_queue := q\<rparr>, r))"

definition set_reply_final :: "(session \<Rightarrow> bool) \<Rightarrow> ('q, 's, unit) step" where
  "set_reply_final f = amodify (\<lambda>e. e\<lparr>e_resp := set_final (f (e_sess e)) (e_resp e)\<rparr>)"

definition chunk_status :: "session \<Rightarrow> string \<Rightarrow> status" where
  "chunk_status sess cid =
     zero_status\<lparr>s_CmdID := cid, s_MsgRef := Itoa (ss_ClientMsgID sess), s_CmdRef := ''0'',
       s_Cmd := CmdResults, s_Data := data_value (Wire StatusChunkedItemAccepted)\<rparr>"

definition deliver :: "('q, 's) config \<Rightarrow> ('q, 's, unit) step" where
  "deliver cfg =
     abind (aget e_sess) (\<lambda>sess.
       if uploading sess then
         abind (reply (\<lambda>cid. Status (chunk_status sess cid))) (\<lambda>_.
         abind (reply (\<lambda>cid. Alert (zero_alert\<lparr>a_CmdID := cid, a_Data := Wire AlertNextMessage\<rparr>))) (\<lambda>_.
           set_reply_final (\<lambda>_. False)))
       else
         abind (fetch cfg) (\<lambda>qcs.
         abind (fill_reply cfg qcs) (\<lambda>ds.
         abind (mark_sent cfg ds) (\<lambda>_. set_reply_final (\<lambda>s. ss_Outgoing s = None)))))"

text \<open>The next chunk of the object in flight; the object popped is the one the stored session has.\<close>

definition send_chunk :: "outgoing \<Rightarrow> item \<Rightarrow> item list \<Rightarrow> ('q, 's) engine \<Rightarrow> ('q, 's) engine" where
  "send_chunk og nxt rest e =
     (case CmdIDs_Next (e_ids e) of (n, cid) \<Rightarrow>
        let msgID = h_MsgID (msg_Header (e_resp e));
            og' = og\<lparr>og_Chunks := rest\<rparr>;
            resp = add_command (Replace (zero_cmd\<lparr>c_CmdID := cid, c_Items := [nxt]\<rparr>)) (e_resp e)
        in e\<lparr>e_ids := n, e_out := Some og',
             e_resp := (if rest = [] then set_final True resp else resp),
             e_sess := (e_sess e)\<lparr>ss_Sent := AList.update (msgID @ ''/'' @ cid) (og_CommandID og) (ss_Sent (e_sess e)),
                                  ss_Outgoing := (if rest = [] then None else Some og')\<rparr>\<rparr>)"

definition continueOrNext :: "('q, 's) config \<Rightarrow> ('q, 's, unit) step" where
  "continueOrNext cfg =
     abind (aget e_sess) (\<lambda>sess.
       case ss_Outgoing sess of
         Some og \<Rightarrow>
           (case og_Chunks og of
              nxt # rest \<Rightarrow> amodify (send_chunk og nxt rest)
            | [] \<Rightarrow> deliver cfg)
       | None \<Rightarrow> deliver cfg)"

section \<open>Finishing and handling a message\<close>

definition hasWork :: "session \<Rightarrow> bool" where
  "hasWork sess =
     (ss_Sent sess \<noteq> [] \<or> ss_Children sess \<noteq> [] \<or> ss_Outgoing sess \<noteq> None \<or> uploading sess)"

definition onlyHeaderStatus :: "message \<Rightarrow> bool" where
  "onlyHeaderStatus m =
     (case b_Commands (msg_Body m) of [Status st] \<Rightarrow> s_CmdRef st = ''0'' | _ \<Rightarrow> False)"

text \<open>What a failing request leaves in the store through the references it shares with it.\<close>

definition alias_back :: "('q, 's) config \<Rightarrow> ('q, 's) engine \<Rightarrow> ('q, 's) engine" where
  "alias_back cfg e =
     (case e_loaded e of
        None \<Rightarrow> e
      | Some old \<Rightarrow>
          e\<lparr>w_sessions := so_Alias (cfg_Sessions cfg) (w_sessions e) (aliased old (e_sess e) (e_out e))\<rparr>)"

text \<open>The part of \<open>finish\<close> that writes to the stores; the result says whether the session ends.\<close>

definition persist :: "('q, 's) config \<Rightarrow> ('q, 's, bool) step" where
  "persist cfg =
     abind (flushResults cfg) (\<lambda>_.
     abind (amodify (\<lambda>e. e\<lparr>e_sess := (e_sess e)\<lparr>ss_ServerMsgID := mustAtoi (h_MsgID (msg_Header (e_resp e)))\<rparr>\<rparr>)) (\<lambda>_.
     abind (aget (\<lambda>e. ss_Closed (e_sess e) \<or> (b_Final (msg_Body (e_resp e)) \<and> \<not> hasWork (e_sess e)))) (\<lambda>ending e.
       case (if ending then so_Delete (cfg_Sessions cfg) (w_sessions e) (ss_Key (e_sess e))
             else so_Put (cfg_Sessions cfg) (w_sessions e) (e_sess e)) of
         (st, Inl err) \<Rightarrow> (e\<lparr>w_sessions := st\<rparr>, Inl err)
       | (st, Inr _) \<Rightarrow> (e\<lparr>w_sessions := st\<rparr>, Inr ending))))"

definition conclude :: "('q, 's) config \<Rightarrow> bool \<Rightarrow> ('q, 's, message option) step" where
  "conclude cfg ending =
     abind (aget e_sess) (\<lambda>sess.
     abind (if ending \<and> ss_unenroll sess then call_hook cfg (Unenrolled (ss_DeviceID sess)) else areturn ()) (\<lambda>_.
       aget (\<lambda>e. if ending \<and> onlyHeaderStatus (e_resp e) then None else Some (e_resp e))))"

text \<open>The body of \<open>Handle\<close> between finding the session and \<open>finish\<close>.\<close>

definition respond :: "('q, 's) config \<Rightarrow> transport option \<Rightarrow> message \<Rightarrow> identity \<Rightarrow> ('q, 's, unit) step" where
  "respond cfg t req i =
     abind (authenticate cfg req i t) (\<lambda>outcome.
       if outcome \<noteq> authTrusted then challenge cfg req i outcome
       else
         abind (reply (\<lambda>cid. Status (StatusForHeader req cid StatusOK))) (\<lambda>_.
         abind (ackAndFile cfg req) (\<lambda>_.
         abind (aget (\<lambda>e. ss_Closed (e_sess e))) (\<lambda>closed.
           if closed then set_reply_final (\<lambda>_. True)
           else if IsNextMessageRequest req \<and> length (body_Statuses (msg_Body req)) \<le> 1 then continueOrNext cfg
           else deliver cfg))))"

definition exchange :: "('q, 's) config \<Rightarrow> transport option \<Rightarrow> message \<Rightarrow> identity
    \<Rightarrow> ('q, 's, message option) step" where
  "exchange cfg t req i =
     abind (aon_error (alias_back cfg) (abind (respond cfg t req i) (\<lambda>_. persist cfg))) (conclude cfg)"

definition start :: "('q, 's) config \<Rightarrow> message \<Rightarrow> session option \<times> session \<Rightarrow> ('q, 's) world \<Rightarrow> ('q, 's) engine" where
  "start cfg req ls w =
     world.extend w (engine.fields (fst ls) (Option.bind (fst ls) ss_Outgoing) (snd ls)
       (NewResponse req (cfg_ServerURL cfg) (Itoa (wrap64 (ss_ServerMsgID (snd ls) + 1)))) 0)"

definition validation_error :: "verror list \<Rightarrow> error" where
  "validation_error es = concat (map (\<lambda>v. [Syncml_ErrInvalid, fst v]) es)"

text \<open>\<open>Handle\<close> on a decoded request, up to the encoding of the reply; \<open>None\<close> is the empty reply.\<close>

definition handle_message :: "('q, 's) config \<Rightarrow> transport option \<Rightarrow> message
    \<Rightarrow> (('q, 's) world, message option) action" where
  "handle_message cfg t req w =
     (if Validate req \<noteq> [] then (w, Inl (validation_error (Validate req)))
      else case au_Lookup (cfg_Auth cfg) (l_LocURI (h_Source (msg_Header req))) of
          Inl err \<Rightarrow> (w, Inl err)
        | Inr i \<Rightarrow>
            (case session_for cfg req i t w of
               (w1, Inl err) \<Rightarrow> (w1, Inl err)
             | (w1, Inr ls) \<Rightarrow>
                 (case exchange cfg t req i (start cfg req ls w1) of
                    (e, r) \<Rightarrow> (world.truncate e, r))))"

definition encode_reply :: "message option \<Rightarrow> string result" where
  "encode_reply m = (case m of None \<Rightarrow> Inr [] | Some resp \<Rightarrow> Encode resp [] False)"

end
