(* ===== verification/Mdm_Engine.thy ===== *)
theory Mdm_Engine
  imports Mdm_Service
begin

text \<open>
  Facts about the session engine. Handling a message is a composition of steps; a step is shown
  once to keep the engine's invariant, and the rules of \<open>Go_Monad\<close> carry it to the whole of
  \<open>Handle\<close>. The locale \<open>mdm_engine\<close> joins the contracts of the queue and of the session store; its
  interpretation is the service over the in-memory stores.
\<close>

section \<open>Sessions\<close>

text \<open>
  What holds of every session: keys are distinct, the object under assembly stays within the
  request limit \<open>N\<close>, and one that unenrolls is closed.
\<close>

definition sess_ok :: "int \<Rightarrow> session \<Rightarrow> bool" where
  "sess_ok N s =
     (distinct (map fst (ss_Sent s)) \<and> distinct (map fst (ss_Children s))
      \<and> pred_option (\<lambda>rs. distinct (map fst rs)) (ss_results s)
      \<and> pred_option (\<lambda>a. assembler_inv a \<and> as_MaxSize a = N) (ss_Assembler s)
      \<and> (ss_unenroll s \<longrightarrow> ss_Closed s))"

text \<open>A step of a message on the session: who and which message it is for never changes.\<close>

definition same_id :: "session \<Rightarrow> session \<Rightarrow> bool" where
  "same_id s s' =
     (ss_Key s' = ss_Key s \<and> ss_DeviceID s' = ss_DeviceID s \<and> ss_SessionID s' = ss_SessionID s
      \<and> ss_EnrollmentKey s' = ss_EnrollmentKey s \<and> ss_ClientMsgID s' = ss_ClientMsgID s)"

definition sess_step :: "int \<Rightarrow> session \<Rightarrow> session \<Rightarrow> bool" where
  "sess_step N s s' = (same_id s s' \<and> (sess_ok N s \<longrightarrow> sess_ok N s'))"

lemmas sess_defs = sess_step_def same_id_def sess_ok_def

lemma sess_step_refl [simp]: "sess_step N s s"
  by (simp add: sess_step_def same_id_def)

lemma sess_step_trans [trans]: "sess_step N a b \<Longrightarrow> sess_step N b c \<Longrightarrow> sess_step N a c"
  by (auto simp: sess_step_def same_id_def)

lemma set_pending_step: "sess_step N s (set_pending s i f)"
  by (auto simp: set_pending_def ensurePending_def Let_def sess_defs distinct_update split: option.split)

lemma pending_fields [simp]:
  "ss_Sent (set_pending s i f) = ss_Sent s" "ss_Children (set_pending s i f) = ss_Children s"
  "ss_AssemblingCommand (set_pending s i f) = ss_AssemblingCommand s"
  "ss_Assembler (set_pending s i f) = ss_Assembler s" "ss_Outgoing (set_pending s i f) = ss_Outgoing s"
  "ss_Facts (set_pending s i f) = ss_Facts s" "ss_Closed (set_pending s i f) = ss_Closed s"
  "ss_unenroll (set_pending s i f) = ss_unenroll s"
  by (simp_all add: set_pending_def case_prod_beta)

lemma pending_steps [simp]:
  "sess_step N s (pendingStatus s i st)" "sess_step N s (recordChild s i st)" "sess_step N s (stashResults s i its)"
  by (simp_all add: pendingStatus_def recordChild_def stashResults_def set_pending_step)

lemma sess_step_delete:
  "sess_step N s s' \<Longrightarrow> sess_step N s (s'\<lparr>ss_Sent := AList.delete k (ss_Sent s')\<rparr>)"
  "sess_step N s s' \<Longrightarrow> sess_step N s (s'\<lparr>ss_Children := AList.delete k (ss_Children s')\<rparr>)"
  by (auto simp: sess_defs distinct_delete)

lemma recordChild_children [simp]: "ss_Children (recordChild s i st) = ss_Children s"
  by (simp add: recordChild_def)

lemma fileStatus_step: "sess_step N s (fileStatus s st)"
proof -
  have "sess_step N s ((recordChild s p st)\<lparr>ss_Children := AList.delete k (ss_Children s)\<rparr>)" for p k
    using sess_step_delete(2) [of N s "recordChild s p st" k] by simp
  then show ?thesis
    by (auto simp: fileStatus_def Let_def intro: sess_step_delete(1) split: option.split)
qed

lemma foldl_fileStatus_step: "sess_step N s (foldl fileStatus s sts)"
  by (induction sts arbitrary: s) (auto intro: sess_step_trans [OF fileStatus_step])

lemma assembler_Add_size [simp]: "as_MaxSize (fst (assembler_Add a it)) = as_MaxSize a"
  by (auto simp: assembler_Add_def assembler_open_def assembler_append_def Let_def assembler_Reset_def
      new_assembler_def split: sum.splits option.splits if_splits)

lemma assemble_items_step:
  "assemble_items i its s a = (s', r) \<Longrightarrow> assembler_inv a \<Longrightarrow> as_MaxSize a = N \<Longrightarrow>
     sess_step N s s' \<and> ss_Assembler s' \<noteq> None"
proof (induction i its s a arbitrary: s' r rule: assemble_items.induct)
  case (1 i s a)
  then show ?case by (auto simp: sess_defs)
next
  case (2 i it its s a)
  obtain b res where add: "assembler_Add a it = (b, res)" by (cases "assembler_Add a it")
  then have b: "assembler_inv b" "as_MaxSize b = N"
    using 2 assembler_Add_inv [of a it] assembler_Add_size [of a it] by auto
  show ?case
  proof (cases res)
    case (Inl err)
    then show ?thesis using 2 add b by (auto simp: sess_defs)
  next
    case (Inr out)
    then show ?thesis
    proof (cases out)
      case None
      have "sess_step N s (s\<lparr>ss_AssemblingCommand := i\<rparr>)" by (simp add: sess_defs)
      then show ?thesis
        using 2 add b Inr None sess_step_trans by fastforce
    next
      case (Some o')
      then show ?thesis
        using 2 add b Inr by (auto split: prod.splits)
    qed
  qed
qed

lemma new_assembler_size [simp]: "as_MaxSize (new_assembler N) = N"
  by (simp add: new_assembler_def)

lemma fileResults_step: "sess_ok N s \<Longrightarrow> sess_step N s (fst (fileResults N s res))"
proof -
  assume ok: "sess_ok N s"
  define a where "a = (case ss_Assembler s of None \<Rightarrow> new_assembler N | Some a \<Rightarrow> a)"
  have a: "assembler_inv a" "as_MaxSize a = N"
    using ok by (auto simp: a_def sess_ok_def split: option.split)
  show ?thesis
  proof (cases "results_command s res")
    case None
    then show ?thesis by (simp add: fileResults_def)
  next
    case (Some i)
    obtain s1 r where as: "assemble_items i (r_Items res) s a = (s1, r)" by fastforce
    note st = assemble_items_step [OF this a]
    have "sess_step N s1 (stashResults (s1\<lparr>ss_AssemblingCommand := []\<rparr>) i outs)" for outs
      by (rule sess_step_trans [OF _ pending_steps(3)]) (simp add: sess_defs)
    then show ?thesis
      using st Some as sess_step_trans
      by (auto simp: fileResults_def a_def [symmetric] split: sum.split)
  qed
qed

lemma map_members_distinct:
  "map_members m p n cs ch = (ch', cs') \<Longrightarrow> distinct (map fst ch) \<Longrightarrow> distinct (map fst ch')"
  by (induction m p n cs ch arbitrary: ch' cs' rule: map_members.induct)
     (auto simp: Let_def distinct_update split: prod.splits)

lemma mapChildren_step: "sess_step N s (fst (mapChildren s m c p))"
  by (cases c) (auto simp: mapChildren_def Let_def sess_defs intro: map_members_distinct [OF prod.collapse [symmetric]])

section \<open>The frame of a message\<close>

text \<open>The identifiers of the reply's commands are 1, 2, 3, ... in order.\<close>

definition reply_ids :: "('q, 's) engine \<Rightarrow> bool" where
  "reply_ids e =
     (map cmd_ID (b_Commands (msg_Body (e_resp e))) = map (\<lambda>k. Itoa (int k)) [1..<Suc (e_ids e)])"

text \<open>
  What stays the same between the start \<open>e0\<close> of an exchange and a later point \<open>e\<close>: the queues of
  other devices, the store of sessions, nonces under other keys than \<open>nk\<close>, whose session it is, and
  the header of the reply; and the invariants that hold at both.
\<close>

definition frame :: "('q \<Rightarrow> bool) \<Rightarrow> ('q \<Rightarrow> string \<Rightarrow> qcmd list) \<Rightarrow> int \<Rightarrow> string
    \<Rightarrow> ('q, 's) engine \<Rightarrow> ('q, 's) engine \<Rightarrow> bool" where
  "frame iv view N nk e0 e =
     (iv (w_queue e) \<and> (\<forall>d. d \<noteq> ss_DeviceID (e_sess e0) \<longrightarrow> view (w_queue e) d = view (w_queue e0) d)
      \<and> same_id (e_sess e0) (e_sess e) \<and> sess_ok N (e_sess e)
      \<and> w_sessions e = w_sessions e0 \<and> e_loaded e = e_loaded e0
      \<and> records_inv (w_nonces e) \<and> (\<forall>k. k \<noteq> nk \<longrightarrow> map_of (w_nonces e) k = map_of (w_nonces e0) k)
      \<and> msg_Header (e_resp e) = msg_Header (e_resp e0) \<and> reply_ids e)"

lemma add_command_simps [simp]:
  "b_Commands (msg_Body (add_command c m)) = b_Commands (msg_Body m) @ [c]"
  "b_Final (msg_Body (add_command c m)) = b_Final (msg_Body m)"
  "msg_Header (add_command c m) = msg_Header m"
  by (simp_all add: add_command_def)

lemma set_final_simps [simp]:
  "b_Commands (msg_Body (set_final b m)) = b_Commands (msg_Body m)"
  "b_Final (msg_Body (set_final b m)) = b" "msg_Header (set_final b m) = msg_Header m"
  by (simp_all add: set_final_def)

lemma same_id_step: "same_id a b \<Longrightarrow> sess_ok N b \<Longrightarrow> sess_step N b c \<Longrightarrow> same_id a c \<and> sess_ok N c"
  by (auto simp: sess_step_def same_id_def)

lemma frame_sess_ok: "frame iv view N nk e0 e \<Longrightarrow> sess_ok N (e_sess e)"
  by (simp add: frame_def)

lemma frame_sess:
  assumes "frame iv view N nk e0 e" "sess_step N (e_sess e) s"
  shows "frame iv view N nk e0 (e\<lparr>e_sess := s\<rparr>)"
  using assms same_id_step [of "e_sess e0" "e_sess e" N s] by (simp add: frame_def reply_ids_def)

lemma frame_ticks: "frame iv view N nk e0 (e\<lparr>w_ticks := n\<rparr>) = frame iv view N nk e0 e"
  by (simp add: frame_def reply_ids_def)

lemma keeps_with_sess:
  "(\<And>s. sess_ok N s \<Longrightarrow> sess_step N s (f s)) \<Longrightarrow> keeps (frame iv view N nk e0) (with_sess f)"
  unfolding with_sess_def by (rule keeps_amodify) (simp add: frame_sess frame_sess_ok)

lemma keeps_clock_now: "keeps (frame iv view N nk e0) (clock_now cfg)"
  by (auto simp: keeps_def clock_now_def frame_def reply_ids_def)

lemma keeps_reply: "(\<And>i. cmd_ID (mk i) = i) \<Longrightarrow> keeps (frame iv view N nk e0) (reply mk)"
  unfolding reply_def by (rule keeps_amodify) (auto simp: frame_def reply_ids_def CmdIDs_Next_def)

lemma keeps_call_hook: "keeps (frame iv view N nk e0) (call_hook cfg h)"
  by (auto simp: keeps_def call_hook_def frame_def reply_ids_def split: option.split)

lemma keeps_set_reply_final: "keeps (frame iv view N nk e0) (set_reply_final f)"
  unfolding set_reply_final_def by (rule keeps_amodify) (auto simp: frame_def reply_ids_def)

lemma keeps_file_results:
  "N = cfg_MaxRequestSize cfg \<Longrightarrow> keeps (frame iv view N nk e0) (file_results cfg res)"
  using same_id_step [OF _ _ fileResults_step]
  by (auto simp: keeps_def file_results_def frame_def reply_ids_def case_prod_beta)

lemma keeps_issue_nonce:
  "nk = nonceKey d \<Longrightarrow> keeps (frame iv view N nk e0) (issue_nonce cfg d)"
proof (rule keeps_wp)
  fix e assume nk: "nk = nonceKey d" and e: "frame iv view N nk e0 e"
  obtain rs r where i: "issueNonce (w_nonces e) (cfg_Clock cfg (w_ticks e)) (cfg_NonceTTL cfg)
      (cfg_Ctx cfg (w_ticks e)) (cfg_Ctx cfg (w_ticks e + 1)) (cfg_Ctx cfg (w_ticks e + 2))
      (cfg_Rand cfg (w_ticks e)) d = (rs, r)" by fastforce
  have "records_inv rs \<and> (\<forall>k. k \<noteq> nk \<longrightarrow> map_of rs k = map_of (w_nonces e) k)"
    using e nk issueNonce_ok [of "w_nonces e"] issueNonce_err [of "w_nonces e"] i
    by (cases r) (fastforce simp: frame_def)+
  then show "wp (issue_nonce cfg d) (\<lambda>_. frame iv view N nk e0) (\<lambda>_. frame iv view N nk e0) e"
    using e i by (cases r) (auto simp: wp_def issue_nonce_def Let_def frame_def reply_ids_def)
qed

lemmas keeps_basic = keeps_clock_now keeps_call_hook keeps_set_reply_final keeps_file_results

lemma cmd_ID_status_for [simp]:
  "s_CmdID (StatusForHeader req i c) = i" "s_CmdID (StatusFor req x i c) = i"
  "s_CmdID (alert_status s a i) = i" "s_CmdID (chunk_status s i) = i"
  by (simp_all add: StatusForHeader_def StatusFor_def alert_status_def chunk_status_def)

lemma keeps_challenge:
  "nk = nonceKey (id_DeviceID i) \<Longrightarrow> keeps (frame iv view N nk e0) (challenge cfg req i oc)"
  unfolding challenge_def Let_def
  by (intro keeps_intro keeps_reply keeps_issue_nonce keeps_with_sess) (auto simp: sess_defs)

lemma sess_step_auth: "sess_step N s (s\<lparr>ss_Authenticated := a, ss_AuthType := b\<rparr>)"
  by (simp add: sess_defs)

lemma keeps_authenticate: "keeps (frame iv view N nk e0) (authenticate cfg req i t)"
  unfolding keeps_def authenticate_def Let_def
  by (simp add: frame_sess frame_ticks sess_step_auth)

lemma keeps_alert_item: "keeps (frame iv view N nk e0) (alert_item cfg code it)"
  unfolding alert_item_def
  by (intro keeps_intro keeps_basic keeps_with_sess) (auto simp: sess_defs)

lemma keeps_handleAlert: "keeps (frame iv view N nk e0) (handleAlert cfg a)"
  unfolding handleAlert_def Let_def
  by (intro keeps_intro keeps_basic keeps_reply keeps_with_sess keeps_alert_item)
     (auto simp: sess_defs option.pred_map elim: option.pred_mono_strong)

lemma keeps_send_chunk:
  "frame iv view N nk e0 e \<Longrightarrow> frame iv view N nk e0 (send_chunk og nxt rest e)"
  by (auto simp: send_chunk_def CmdIDs_Next_def Let_def frame_def reply_ids_def sess_ok_def same_id_def
      distinct_update)

section \<open>Delivered commands\<close>

lemma cloneItems_id [simp]: "cloneItems its = its"
  by (simp add: cloneItems_def option.map_ident map_idI)

lemma cloneCommand_id [simp]: "cloneCommand c = c"
  by (induction c rule: cloneCommand.induct) (auto simp: map_idI)

lemma cmd_ID_assignID: "server_command c \<Longrightarrow> cmd_ID (assignID c i) = i"
  by (cases c) (auto simp: server_command_def)

lemma server_setItems [simp]: "server_command (setItems c its) = server_command c"
  by (cases c) (auto simp: server_command_def)

lemma server_assignID [simp]: "server_command (assignID c i) = server_command c"
  by (cases c) (auto simp: server_command_def)

lemma mapChildren_body [simp]:
  "cmd_ID (snd (mapChildren s m c p)) = cmd_ID c"
  "server_command (snd (mapChildren s m c p)) = server_command c"
  by (cases c; simp add: mapChildren_def Let_def server_command_def)+

lemma prepare_server:
  "prepare s qc = Some (body, chunks) \<Longrightarrow> mcmd_ok (q_Command qc) \<Longrightarrow> server_command body"
  by (auto simp: prepare_def mcmd_ok_def Let_def split: if_splits list.splits sum.splits option.splits)

lemma send_fields:
  assumes "send cfg qc body e = (e', d)"
  shows "w_queue e' = w_queue e" "dl_CommandID d = q_ID qc" "dl_MsgID d = h_MsgID (msg_Header (e_resp e))"
    "dl_At d = cfg_Clock cfg (w_ticks e)" "ss_Facts (e_sess e') = ss_Facts (e_sess e)"
    "ss_MaxObjSize (e_sess e') = ss_MaxObjSize (e_sess e)" "msg_Header (e_resp e') = msg_Header (e_resp e)"
    "ss_Closed (e_sess e') = ss_Closed (e_sess e)" "ss_Outgoing (e_sess e') = ss_Outgoing (e_sess e)"
    "ss_results (e_sess e') = ss_results (e_sess e)" "w_hooks e' = w_hooks e"
    "ss_DeviceID (e_sess e') = ss_DeviceID (e_sess e)"
  using assms
  by (cases "assignID body (Itoa (int (e_ids e + 1)))";
      fastforce simp: send_def CmdIDs_Next_def Let_def mapChildren_def)+

lemma send_frame:
  assumes "send cfg qc body e = (e', d)" "frame iv view N nk e0 e" "server_command body"
  shows "frame iv view N nk e0 e'"
proof -
  let ?cid = "Itoa (int (e_ids e + 1))" and ?m = "h_MsgID (msg_Header (e_resp e))"
  define s1 where "s1 = (e_sess e)\<lparr>ss_Sent := AList.update (Itoa (mustAtoi ?m) @ ''/'' @ ?cid) (q_ID qc) (ss_Sent (e_sess e))\<rparr>"
  define r where "r = mapChildren s1 ?m (assignID body ?cid) (q_ID qc)"
  have "sess_step N (e_sess e) s1" by (simp add: s1_def sess_defs distinct_update)
  then have step: "sess_step N (e_sess e) (fst r)"
    unfolding r_def by (rule sess_step_trans [OF _ mapChildren_step])
  have e': "e' = e\<lparr>e_ids := e_ids e + 1, e_resp := add_command (snd r) (e_resp e), e_sess := fst r, w_ticks := w_ticks e + 1\<rparr>"
    using assms(1) by (auto simp: send_def CmdIDs_Next_def Let_def s1_def r_def case_prod_beta)
  have "cmd_ID (snd r) = ?cid"
    using assms(3) by (simp add: r_def cmd_ID_assignID)
  then show ?thesis
    using assms(2) same_id_step [OF _ _ step, of "e_sess e0"] by (simp add: e' frame_def reply_ids_def)
qed

text \<open>What the delivery loop does with the next command: leave it out, stop before it, send it as the
  first chunk of an object and stop, or send it and go on.\<close>

lemma deliver_loop_Cons:
  assumes "deliver_loop cfg b ds (qc # qcs) e = (e', ds')"
  obtains (skip) "\<not> scopeAllows (e_sess e) (mc_Scope (q_Command qc)) \<or> prepare (e_sess e) qc = None"
      "deliver_loop cfg b ds qcs e = (e', ds')"
    | (full) "b \<le> 0" "ds \<noteq> []" "e' = e" "ds' = ds"
    | (object) body cs e1 d where "scopeAllows (e_sess e) (mc_Scope (q_Command qc))"
        "prepare (e_sess e) qc = Some (body, Some cs)" "send cfg qc body e = (e1, d)"
        "e' = e1\<lparr>e_sess := (e_sess e1)\<lparr>ss_Outgoing := Some \<lparr>og_CommandID = q_ID qc, og_Chunks = cs, og_Name = cmd_Name body\<rparr>\<rparr>\<rparr>"
        "ds' = ds @ [d]"
    | (more) body e1 d where "scopeAllows (e_sess e) (mc_Scope (q_Command qc))"
        "prepare (e_sess e) qc = Some (body, None)" "send cfg qc body e = (e1, d)"
        "deliver_loop cfg (b - commandSize body) (ds @ [d]) qcs e1 = (e', ds')"
proof -
  note eq = deliver_loop.simps(2) [of cfg b ds qc qcs e]
  show thesis
  proof (cases "scopeAllows (e_sess e) (mc_Scope (q_Command qc))")
    case False
    then have "deliver_loop cfg b ds (qc # qcs) e = deliver_loop cfg b ds qcs e"
      by (simp only: eq not_False_eq_True if_True)
    then show thesis using False assms skip by argo
  next
    case sc: True
    show thesis
    proof (cases "prepare (e_sess e) qc")
      case None
      then have "deliver_loop cfg b ds (qc # qcs) e = deliver_loop cfg b ds qcs e"
        using sc by (simp only: eq not_True_eq_False if_False option.case)
      then show thesis using None assms skip by argo
    next
      case (Some bc)
      obtain body chunks where p: "prepare (e_sess e) qc = Some (body, chunks)" using Some by (cases bc) simp
      obtain e1 d where s: "send cfg qc body e = (e1, d)" by fastforce
      have l: "deliver_loop cfg b ds (qc # qcs) e = (if b \<le> 0 \<and> ds \<noteq> [] then (e, ds) else (case chunks of
          None \<Rightarrow> deliver_loop cfg (b - commandSize body) (ds @ [d]) qcs e1
        | Some cs \<Rightarrow> (e1\<lparr>e_sess := (e_sess e1)\<lparr>ss_Outgoing :=
            Some \<lparr>og_CommandID = q_ID qc, og_Chunks = cs, og_Name = cmd_Name body\<rparr>\<rparr>\<rparr>, ds @ [d])))"
        using sc p s by (simp only: eq not_True_eq_False if_False option.case prod.case)
      show thesis
      proof (cases "b \<le> 0 \<and> ds \<noteq> []")
        case True
        have "(e, ds) = (e', ds')" using assms unfolding l if_P [OF True] .
        then show thesis using True full by blast
      next
        case False
        have l': "(case chunks of None \<Rightarrow> deliver_loop cfg (b - commandSize body) (ds @ [d]) qcs e1
          | Some cs \<Rightarrow> (e1\<lparr>e_sess := (e_sess e1)\<lparr>ss_Outgoing :=
            Some \<lparr>og_CommandID = q_ID qc, og_Chunks = cs, og_Name = cmd_Name body\<rparr>\<rparr>\<rparr>, ds @ [d])) = (e', ds')"
          using assms unfolding l if_not_P [OF False] .
        show thesis
        proof (cases chunks)
          case None
          then show thesis using more [OF sc _ s] l' p by (simp only: option.case)
        next
          case (Some cs)
          then show thesis using object [OF sc _ s] l' p by (simp only: option.case prod.inject)
        qed
      qed
    qed
  qed
qed

lemma deliver_loop_frame:
  assumes "deliver_loop cfg b ds qcs e = (e', ds')" "frame iv view N nk e0 e"
    "\<And>qc. qc \<in> set qcs \<Longrightarrow> mcmd_ok (q_Command qc)"
  shows "frame iv view N nk e0 e' \<and> w_queue e' = w_queue e
       \<and> dl_CommandID ` set ds' \<subseteq> dl_CommandID ` set ds \<union> q_ID ` set qcs"
  using assms
proof (induction qcs arbitrary: b ds e)
  case (Cons qc qcs)
  from Cons.prems(1) show ?case
  proof (cases rule: deliver_loop_Cons)
    case skip
    then show ?thesis using Cons.IH [OF skip(2) Cons.prems(2)] Cons.prems(3) by auto
  next
    case full
    then show ?thesis using Cons.prems(2) by auto
  next
    case (object body cs e1 d)
    have "server_command body" using object(2) Cons.prems(3) prepare_server by fastforce
    note f1 = send_frame [OF object(3) Cons.prems(2) this]
    have "frame iv view N nk e0 (e1\<lparr>e_sess := (e_sess e1)\<lparr>ss_Outgoing := x\<rparr>\<rparr>)" for x
      by (rule frame_sess [OF f1]) (simp add: sess_defs)
    then show ?thesis
      unfolding object(4,5) using send_fields(1,2) [OF object(3)] by simp blast
  next
    case (more body e1 d)
    have "server_command body" using more(2) Cons.prems(3) prepare_server by fastforce
    note f1 = send_frame [OF more(3) Cons.prems(2) this]
    have "frame iv view N nk e0 e' \<and> w_queue e' = w_queue e1
        \<and> dl_CommandID ` set ds' \<subseteq> dl_CommandID ` set (ds @ [d]) \<union> q_ID ` set qcs"
      by (rule Cons.IH [OF more(4) f1]) (simp add: Cons.prems(3))
    then show ?thesis
      using send_fields(1,2) [OF more(3)] by auto
  qed
qed auto

section \<open>The engine over its contracts\<close>

locale mdm_engine = command_queue Q inv view + session_store S content stale
  for Q :: "'q queue_ops" and inv :: "'q \<Rightarrow> bool" and view :: "'q \<Rightarrow> string \<Rightarrow> qcmd list"
    and S :: "'s session_ops" and content :: "'s \<Rightarrow> string \<rightharpoonup> session"
    and stale :: "'s \<Rightarrow> time \<Rightarrow> session \<Rightarrow> bool" +
  fixes cfg :: "('q, 's) config"
  assumes cfg_queue: "cfg_Queue cfg = Q" and cfg_sessions: "cfg_Sessions cfg = S"
begin

abbreviation F :: "string \<Rightarrow> ('q, 's) engine \<Rightarrow> ('q, 's) engine \<Rightarrow> bool" where
  "F \<equiv> frame inv view (cfg_MaxRequestSize cfg)"

lemma frame_queue:
  assumes "F nk e0 e" "inv q" "\<And>d. d \<noteq> ss_DeviceID (e_sess e) \<Longrightarrow> view q d = view (w_queue e) d"
  shows "F nk e0 (e\<lparr>w_queue := q\<rparr>)"
  using assms by (simp add: frame_def reply_ids_def same_id_def)

text \<open>A queue operation on the session's own device.\<close>

lemma keeps_queue_op:
  assumes "\<And>q d q' r. inv q \<Longrightarrow> f q d = (q', r) \<Longrightarrow> inv q' \<and> (\<forall>d'. d' \<noteq> d \<longrightarrow> view q' d' = view q d')"
    and "\<And>e. m e = (case f (w_queue e) (ss_DeviceID (e_sess e)) of (q, r) \<Rightarrow> (e\<lparr>w_queue := q\<rparr>, r))"
  shows "keeps (F nk e0) m"
  unfolding keeps_def
proof (intro allI impI)
  fix e assume e: "F nk e0 e"
  obtain q r where q: "f (w_queue e) (ss_DeviceID (e_sess e)) = (q, r)" by fastforce
  have "inv (w_queue e)" using e by (simp add: frame_def)
  with assms(1) q have "F nk e0 (e\<lparr>w_queue := q\<rparr>)" by (intro frame_queue [OF e]) blast+
  then show "F nk e0 (fst (m e))" by (simp add: assms(2) q)
qed

lemma keeps_enqueue_at: "keeps (F nk e0) (enqueue_at cfg c at)"
proof (rule keeps_queue_op)
  show "inv q' \<and> (\<forall>d'. d' \<noteq> d \<longrightarrow> view q' d' = view q d')"
    if "inv q" "qo_Enqueue Q q d (Some c) at = (q', r)" for q d q' r
    using enqueue_ok [OF that(1)] enqueue_err [OF that(1)] that(2) by (cases r) fastforce+
qed (simp add: enqueue_at_def cfg_queue)

lemma keeps_enqueue: "keeps (F nk e0) (enqueue cfg c)"
  unfolding enqueue_def by (intro keeps_intro keeps_basic keeps_enqueue_at)

lemma store_other:
  assumes "inv q" "qo_StoreResult Q q d i rs = (q', r)"
  shows "inv q' \<and> (\<forall>d'. d' \<noteq> d \<longrightarrow> view q' d' = view q d')"
  using store_ok [OF assms(1), of i d rs] store_err [OF assms(1), of i d rs] assms(2)
  by (cases "i \<in> q_ID ` set (view q d)") auto

lemma keeps_store_result: "keeps (F nk e0) (store_result cfg i rs)"
  by (rule keeps_queue_op [of "\<lambda>q d. qo_StoreResult Q q d i rs"])
     (use store_other in blast, simp add: store_result_def cfg_queue)

lemma keeps_flushResults: "keeps (F nk e0) (flushResults cfg)"
  unfolding flushResults_def flush_one_def
  by (intro keeps_intro keeps_basic keeps_with_sess keeps_store_result)
     (auto simp: sess_defs option.pred_map distinct_delete elim: option.pred_mono_strong)

lemma keeps_queueFirstSessionReads: "keeps (F nk e0) (queueFirstSessionReads cfg)"
proof -
  have "keeps (F nk e0) (enqueue_once cfg g)" for g
    using keepsD [OF keeps_enqueue [of nk e0 g]]
    by (auto simp: keeps_def enqueue_once_def case_prod_beta split: sum.split)
  then show ?thesis
    unfolding queueFirstSessionReads_def push_read_def
    by (intro keeps_intro keeps_enqueue) auto
qed

lemma keeps_recordPackageOne: "keeps (F nk e0) (recordPackageOne cfg req)"
  unfolding recordPackageOne_def
  by (intro keeps_intro keeps_basic keeps_with_sess keeps_queueFirstSessionReads) (auto simp: sess_defs)

lemma keeps_ackAndFile: "keeps (F nk e0) (ackAndFile cfg req)"
proof -
  have "keeps (F nk e0) (ack_command cfg req c)" for c
    by (cases c) (auto simp: ack_command_def intro!: keeps_areturn keeps_reply keeps_handleAlert keeps_file_results)
  then show ?thesis
    unfolding ackAndFile_def
    by (intro keeps_intro keeps_with_sess foldl_fileStatus_step keeps_recordPackageOne)
qed

text \<open>Delivery in terms of the contract: which commands are considered, and that they are marked.\<close>

lemma fetch_ok:
  "inv (w_queue e) \<Longrightarrow>
     fetch cfg e = (e, Inr (take 256 (filter deliverable (view (w_queue e) (ss_DeviceID (e_sess e))))))"
  using deliverable_ok [of "w_queue e" 256 "ss_DeviceID (e_sess e)"] by (simp add: fetch_def cfg_queue)

lemma mark_sent_ok:
  assumes "inv (w_queue e)" "dl_CommandID ` set ds \<subseteq> q_ID ` set (view (w_queue e) (ss_DeviceID (e_sess e)))"
  shows "\<exists>q. mark_sent cfg ds e = (e\<lparr>w_queue := q\<rparr>, Inr ()) \<and> inv q \<and>
    view q = (view (w_queue e))(ss_DeviceID (e_sess e) := map (mark_with ds) (view (w_queue e) (ss_DeviceID (e_sess e))))"
proof (cases "ds = []")
  case True
  then show ?thesis
    using assms by (intro exI [of _ "w_queue e"]) (simp add: mark_sent_def mark_with_def map_idI)
next
  case False
  then show ?thesis
    using mark_ok [OF assms] by (auto simp: mark_sent_def cfg_queue)
qed

lemma deliver_runs:
  assumes "F nk e0 e" "\<not> uploading (e_sess e)"
  defines "d \<equiv> ss_DeviceID (e_sess e)"
  obtains e1 ds q where
    "deliver_loop cfg (cfg_MaxMessageBytes cfg - int (length (b_Commands (msg_Body (e_resp e)))) * 128) []
       (take 256 (filter deliverable (view (w_queue e) d))) e = (e1, ds)"
    "F nk e0 e1" "w_queue e1 = w_queue e" "inv q"
    "view q = (view (w_queue e))(d := map (mark_with ds) (view (w_queue e) d))"
    "dl_CommandID ` set ds \<subseteq> q_ID ` set (take 256 (filter deliverable (view (w_queue e) d)))"
    "deliver cfg e = (e1\<lparr>w_queue := q, e_resp := set_final (ss_Outgoing (e_sess e1) = None) (e_resp e1)\<rparr>, Inr ())"
proof -
  have i: "inv (w_queue e)" using assms(1) by (simp add: frame_def)
  define qcs where "qcs = take 256 (filter deliverable (view (w_queue e) d))"
  have sub: "set qcs \<subseteq> set (view (w_queue e) d)"
    unfolding qcs_def by (meson filter_is_subset order_trans set_take_subset)
  obtain e1 ds where l: "deliver_loop cfg
      (cfg_MaxMessageBytes cfg - int (length (b_Commands (msg_Body (e_resp e)))) * 128) [] qcs e = (e1, ds)"
    by fastforce
  have "mcmd_ok (q_Command qc)" if "qc \<in> set qcs" for qc
    using view_valid [OF i] sub that by blast
  from deliver_loop_frame [OF l assms(1) this]
  have f: "F nk e0 e1" "w_queue e1 = w_queue e" "dl_CommandID ` set ds \<subseteq> q_ID ` set qcs" by simp_all
  have dev: "ss_DeviceID (e_sess e1) = d"
    using assms(1) f(1) by (simp add: frame_def same_id_def d_def)
  have i1: "inv (w_queue e1)" unfolding f(2) by (rule i)
  have ids: "dl_CommandID ` set ds \<subseteq> q_ID ` set (view (w_queue e1) (ss_DeviceID (e_sess e1)))"
    unfolding f(2) dev using f(3) image_mono [OF sub] by (rule order_trans)
  obtain q where q: "mark_sent cfg ds e1 = (e1\<lparr>w_queue := q\<rparr>, Inr ())" "inv q"
    "view q = (view (w_queue e))(d := map (mark_with ds) (view (w_queue e) d))"
    using mark_sent_ok [OF i1 ids] unfolding f(2) dev by blast
  have "deliver cfg e = abind (fetch cfg) (\<lambda>qcs. abind (fill_reply cfg qcs) (\<lambda>ds.
      abind (mark_sent cfg ds) (\<lambda>_. set_reply_final (\<lambda>s. ss_Outgoing s = None)))) e"
    using assms(2) by (simp only: deliver_def abind_run if_False)
  also have "\<dots> = abind (fill_reply cfg qcs) (\<lambda>ds.
      abind (mark_sent cfg ds) (\<lambda>_. set_reply_final (\<lambda>s. ss_Outgoing s = None))) e"
    unfolding qcs_def d_def by (rule abind_ok) (rule fetch_ok [OF i])
  also have "\<dots> = abind (mark_sent cfg ds) (\<lambda>_. set_reply_final (\<lambda>s. ss_Outgoing s = None)) e1"
    by (rule abind_ok) (simp only: fill_reply_def l prod.case)
  also have "\<dots> = set_reply_final (\<lambda>s. ss_Outgoing s = None) (e1\<lparr>w_queue := q\<rparr>)"
    by (rule abind_ok) (rule q(1))
  finally have "deliver cfg e = (e1\<lparr>w_queue := q, e_resp := set_final (ss_Outgoing (e_sess e1) = None) (e_resp e1)\<rparr>, Inr ())"
    by (simp only: set_reply_final_def amodify_def engine.simps engine.update_convs world.update_convs) simp
  from that [OF l [unfolded qcs_def] f(1,2) q(2,3) f(3) [unfolded qcs_def] this] show thesis .
qed

lemma keeps_deliver: "keeps (F nk e0) (deliver cfg)"
  unfolding keeps_def
proof (intro allI impI)
  fix e assume e: "F nk e0 e"
  show "F nk e0 (fst (deliver cfg e))"
  proof (cases "uploading (e_sess e)")
    case True
    have "keeps (F nk e0) (abind (reply (\<lambda>cid. Status (chunk_status (e_sess e) cid))) (\<lambda>_.
        abind (reply (\<lambda>cid. Alert (zero_alert\<lparr>a_CmdID := cid, a_Data := Wire AlertNextMessage\<rparr>))) (\<lambda>_.
          set_reply_final (\<lambda>_. False))))"
      by (intro keeps_intro keeps_reply keeps_basic) simp_all
    from keepsD [OF this e] show ?thesis
      using True by (simp only: deliver_def abind_run if_True)
  next
    case False
    from deliver_runs [OF e this] obtain e1 ds q where
      r: "F nk e0 e1" "w_queue e1 = w_queue e" "inv q"
        "view q = (view (w_queue e))(ss_DeviceID (e_sess e) := map (mark_with ds) (view (w_queue e) (ss_DeviceID (e_sess e))))"
        "deliver cfg e = (e1\<lparr>w_queue := q, e_resp := set_final (ss_Outgoing (e_sess e1) = None) (e_resp e1)\<rparr>, Inr ())"
      by metis
    have "ss_DeviceID (e_sess e1) = ss_DeviceID (e_sess e)"
      using e r(1) by (simp add: frame_def same_id_def)
    then have "F nk e0 (e1\<lparr>w_queue := q\<rparr>)"
      using r(2-4) by (intro frame_queue [OF r(1)]) auto
    then show ?thesis
      by (simp add: r(5) frame_def reply_ids_def)
  qed
qed

lemma keeps_continueOrNext: "keeps (F nk e0) (continueOrNext cfg)"
  unfolding continueOrNext_def
  by (intro keeps_intro keeps_deliver) (auto intro!: keeps_intro keeps_deliver keeps_send_chunk split: list.split)

lemma keeps_respond:
  "nk = nonceKey (id_DeviceID i) \<Longrightarrow> keeps (F nk e0) (respond cfg t req i)"
  unfolding respond_def
  by (intro keeps_intro keeps_authenticate keeps_challenge keeps_reply keeps_ackAndFile
      keeps_basic keeps_continueOrNext keeps_deliver) auto

section \<open>Persisting\<close>

lemma persist_runs:
  assumes "F nk e0 e"
  obtains (failed) e1 err where "F nk e0 e1" "flushResults cfg e = (e1, Inl err)" "persist cfg e = (e1, Inl err)"
  | (stored) e1 e2 st ending where "F nk e0 e1" "flushResults cfg e = (e1, Inr ())"
      "e2 = e1\<lparr>e_sess := (e_sess e1)\<lparr>ss_ServerMsgID := mustAtoi (h_MsgID (msg_Header (e_resp e0)))\<rparr>\<rparr>"
      "F nk e0 e2" "ending = (ss_Closed (e_sess e1) \<or> (b_Final (msg_Body (e_resp e1)) \<and> \<not> hasWork (e_sess e1)))"
      "content st = (content (w_sessions e0))(ss_Key (e_sess e0) := (if ending then None else Some (e_sess e2)))"
      "stale st = stale (w_sessions e0)" "persist cfg e = (e2\<lparr>w_sessions := st\<rparr>, Inr ending)"
proof -
  obtain e1 r where fl: "flushResults cfg e = (e1, r)" by fastforce
  have f1: "F nk e0 e1" using keepsD [OF keeps_flushResults assms] by (simp add: fl)
  show thesis
  proof (cases r)
    case (Inl err)
    have "persist cfg e = (e1, Inl err)"
      unfolding persist_def by (rule abind_err) (simp add: fl Inl)
    then show thesis using failed f1 fl Inl by blast
  next
    case (Inr u)
    define e2 where "e2 = e1\<lparr>e_sess := (e_sess e1)\<lparr>ss_ServerMsgID := mustAtoi (h_MsgID (msg_Header (e_resp e0)))\<rparr>\<rparr>"
    define ending where "ending = (ss_Closed (e_sess e1) \<or> (b_Final (msg_Body (e_resp e1)) \<and> \<not> hasWork (e_sess e1)))"
    have f2: "F nk e0 e2"
      unfolding e2_def by (rule frame_sess [OF f1]) (simp add: sess_defs)
    have w: "w_sessions e2 = w_sessions e0" "ss_Key (e_sess e2) = ss_Key (e_sess e0)"
      "msg_Header (e_resp e1) = msg_Header (e_resp e0)"
      using f1 f2 by (simp_all add: frame_def same_id_def)
    obtain st where st: "(if ending then so_Delete S (w_sessions e2) (ss_Key (e_sess e2))
        else so_Put S (w_sessions e2) (e_sess e2)) = (st, Inr ())"
      "content st = (content (w_sessions e0))(ss_Key (e_sess e0) := (if ending then None else Some (e_sess e2)))"
      "stale st = stale (w_sessions e0)"
      using put_content [of "w_sessions e2" "e_sess e2"] delete_content [of "w_sessions e2" "ss_Key (e_sess e2)"] w
      by (cases ending) auto
    have e: "ending = (ss_Closed (e_sess e2) \<or> (b_Final (msg_Body (e_resp e2)) \<and> \<not> hasWork (e_sess e2)))"
      by (simp add: ending_def e2_def hasWork_def uploading_def)
    have "persist cfg e = (e2\<lparr>w_sessions := st\<rparr>, Inr ending)"
      unfolding persist_def cfg_sessions
      by (subst abind_ok [of _ e e1 u]) (simp_all add: fl Inr w(3) e2_def [symmetric] e [symmetric] st(1))
    then show thesis
      using stored [of e1 e2 ending st] f1 fl Inr f2 st(2,3) by (simp add: e2_def ending_def)
  qed
qed

lemma alias_back_fields:
  "w_queue (alias_back cfg e) = w_queue e" "w_nonces (alias_back cfg e) = w_nonces e"
  "w_hooks (alias_back cfg e) = w_hooks e"
  by (simp_all add: alias_back_def split: option.split)

lemma alias_back_content:
  assumes "\<And>old. e_loaded e = Some old \<Longrightarrow> ss_Key old = k"
  shows "content (w_sessions (alias_back cfg e)) = content (w_sessions e)
    \<or> (\<exists>old. e_loaded e = Some old \<and>
         content (w_sessions (alias_back cfg e)) = (content (w_sessions e))(k \<mapsto> aliased old (e_sess e) (e_out e)))"
proof (cases "e_loaded e")
  case (Some old)
  have "ss_Key (aliased old (e_sess e) (e_out e)) = k" using assms Some by (simp add: aliased_def)
  then show ?thesis
    using alias_content [of "w_sessions e" "aliased old (e_sess e) (e_out e)"] Some
    by (auto simp: alias_back_def cfg_sessions)
qed (simp add: alias_back_def)

end

end
