(* ===== verification/Mdm_Handle.thy ===== *)
theory Mdm_Handle
  imports Mdm_Engine
begin

text \<open>
  Handling a whole request: the invariant of the service's state, which every request keeps, and
  what a request can change.
\<close>

text \<open>
  A session in the store: its key is its own, the two message counters agree, and it is open. A
  session key joins the device and the session identifier with a slash, so it does not tell where
  the one ends; \<open>owner\<close> is the device an enrollment key was issued to.
\<close>

definition stored_ok :: "(string \<Rightarrow> string) \<Rightarrow> int \<Rightarrow> string \<Rightarrow> session \<Rightarrow> bool" where
  "stored_ok owner N k s =
     (ss_Key s = k \<and> owner (ss_EnrollmentKey s) = ss_DeviceID s \<and> k = SessionKey (ss_DeviceID s) (ss_SessionID s) \<and> sess_ok N s
      \<and> ss_ServerMsgID s = ss_ClientMsgID s \<and> in_int64 (ss_ClientMsgID s)
      \<and> \<not> ss_Closed s \<and> \<not> ss_unenroll s)"

definition world_inv :: "(string \<Rightarrow> string) \<Rightarrow> ('q \<Rightarrow> bool) \<Rightarrow> ('s \<Rightarrow> string \<rightharpoonup> session) \<Rightarrow> int \<Rightarrow> ('q, 's) world \<Rightarrow> bool" where
  "world_inv owner iv content N w =
     (iv (w_queue w) \<and> records_inv (w_nonces w)
      \<and> (\<forall>k s. content (w_sessions w) k = Some s \<longrightarrow> stored_ok owner N k s))"

definition req_device :: "message \<Rightarrow> string" where
  "req_device req = l_LocURI (h_Source (msg_Header req))"

definition req_key :: "message \<Rightarrow> string" where
  "req_key req = SessionKey (req_device req) (h_SessionID (msg_Header req))"

definition req_msg :: "message \<Rightarrow> int" where
  "req_msg req = fst (Atoi (h_MsgID (msg_Header req)))"

lemma take_header_fields [simp]:
  "ss_Key (take_header req t n at s) = ss_Key s" "ss_DeviceID (take_header req t n at s) = ss_DeviceID s"
  "ss_SessionID (take_header req t n at s) = ss_SessionID s"
  "ss_ClientMsgID (take_header req t n at s) = n" "ss_ServerMsgID (take_header req t n at s) = ss_ServerMsgID s"
  "ss_Sent (take_header req t n at s) = ss_Sent s" "ss_Children (take_header req t n at s) = ss_Children s"
  "ss_results (take_header req t n at s) = ss_results s" "ss_Assembler (take_header req t n at s) = ss_Assembler s"
  "ss_Outgoing (take_header req t n at s) = ss_Outgoing s" "ss_Closed (take_header req t n at s) = ss_Closed s"
  "ss_unenroll (take_header req t n at s) = ss_unenroll s" "ss_LastSeen (take_header req t n at s) = at"
  "ss_EnrollmentKey (take_header req t n at s) = ss_EnrollmentKey s"
  "ss_Authenticated (take_header req t n at s) = ss_Authenticated s"
  "ss_AuthType (take_header req t n at s) = ss_AuthType s"
  by (auto simp: take_header_def Let_def split: option.split)

lemma new_session_fields [simp]:
  "ss_Key (new_session req i at) = req_key req" "ss_DeviceID (new_session req i at) = req_device req"
  "ss_SessionID (new_session req i at) = h_SessionID (msg_Header req)" "ss_ServerMsgID (new_session req i at) = 0"
  "ss_Sent (new_session req i at) = []" "ss_Children (new_session req i at) = []"
  "ss_results (new_session req i at) = None" "ss_Assembler (new_session req i at) = None"
  "ss_Outgoing (new_session req i at) = None" "\<not> ss_Closed (new_session req i at)"
  "\<not> ss_unenroll (new_session req i at)" "ss_EnrollmentKey (new_session req i at) = id_EnrollmentKey i"
  "\<not> ss_Authenticated (new_session req i at)" "ss_AuthType (new_session req i at) = []"
  by (simp_all add: new_session_def zero_session_def req_key_def req_device_def)

lemma ParseInt_range: "in_int64 (fst (ParseInt s))"
  by (auto simp: ParseInt_def Let_def in_int64_def split: list.splits sum.splits num_error.splits if_splits prod.splits)

lemma mustAtoi_Itoa [simp]: "in_int64 n \<Longrightarrow> mustAtoi (Itoa n) = n"
  by (simp add: mustAtoi_def Atoi_Itoa)

lemma sess_ok_aliased:
  assumes "sess_ok N old" "sess_ok N new"
  shows "sess_ok N (aliased old new out)"
  using assms by (simp add: aliased_def sess_ok_def)

lemma stored_ok_aliased: "stored_ok owner N k old \<Longrightarrow> sess_ok N new \<Longrightarrow> stored_ok owner N k (aliased old new out)"
  using sess_ok_aliased [of N old new out] by (simp add: stored_ok_def) (simp add: aliased_def)

text \<open>The session an exchange works on, seen from the store.\<close>

definition opened :: "(string \<Rightarrow> string) \<Rightarrow> int \<Rightarrow> message \<Rightarrow> session option \<times> session \<Rightarrow> bool" where
  "opened owner N req ls =
     (ss_Key (snd ls) = req_key req \<and> ss_DeviceID (snd ls) = req_device req
      \<and> ss_SessionID (snd ls) = h_SessionID (msg_Header req)
      \<and> owner (ss_EnrollmentKey (snd ls)) = req_device req
      \<and> ss_ClientMsgID (snd ls) = req_msg req \<and> wrap64 (ss_ServerMsgID (snd ls) + 1) = req_msg req
      \<and> sess_ok N (snd ls) \<and> \<not> ss_Closed (snd ls) \<and> \<not> ss_unenroll (snd ls)
      \<and> (\<forall>old. fst ls = Some old \<longrightarrow> stored_ok owner N (req_key req) old))"

lemma start_fields:
  "w_queue (start cfg req ls w) = w_queue w" "w_sessions (start cfg req ls w) = w_sessions w"
  "w_nonces (start cfg req ls w) = w_nonces w" "w_hooks (start cfg req ls w) = w_hooks w"
  "w_ticks (start cfg req ls w) = w_ticks w" "e_loaded (start cfg req ls w) = fst ls"
  "e_out (start cfg req ls w) = Option.bind (fst ls) ss_Outgoing"
  "e_sess (start cfg req ls w) = snd ls" "e_ids (start cfg req ls w) = 0"
  "e_resp (start cfg req ls w) = NewResponse req (cfg_ServerURL cfg) (Itoa (wrap64 (ss_ServerMsgID (snd ls) + 1)))"
  by (simp_all add: start_def world.defs engine.defs)

lemma truncate_fields [simp]:
  "w_queue (world.truncate e) = w_queue e" "w_sessions (world.truncate e) = w_sessions e"
  "w_nonces (world.truncate e) = w_nonces e" "w_hooks (world.truncate e) = w_hooks e"
  "w_ticks (world.truncate e) = w_ticks e"
  by (simp_all add: world.defs)

lemma conclude_runs: "\<exists>h. fst (conclude cfg ending e) = e\<lparr>w_hooks := h\<rparr>"
proof -
  have "\<exists>h. fst (call_hook cfg c e) = e\<lparr>w_hooks := h\<rparr>" for c
    by (cases "cfg_Hooks cfg") (auto simp: call_hook_def intro: exI [of _ "w_hooks e"])
  moreover have "\<exists>h. e = e\<lparr>w_hooks := h\<rparr>" by (intro exI [of _ "w_hooks e"]) simp
  ultimately show ?thesis
    unfolding conclude_def
    by (auto simp: abind_def aget_def areturn_def split: prod.splits sum.splits) (metis fst_conv)+
qed

context mdm_engine
begin

abbreviation W :: "(string \<Rightarrow> string) \<Rightarrow> ('q, 's) world \<Rightarrow> bool" where
  "W owner \<equiv> world_inv owner inv content (cfg_MaxRequestSize cfg)"

lemma session_for_runs:
  assumes "session_for cfg req i t w = (w1, r)"
  shows "w_queue w1 = w_queue w" "w_nonces w1 = w_nonces w" "w_hooks w1 = w_hooks w"
    "content (w_sessions w1) = content (w_sessions w)
      \<or> content (w_sessions w1) = (content (w_sessions w))(req_key req := None)"
    "stale (w_sessions w1) = stale (w_sessions w)"
proof -
  let ?k = "req_key req"
  obtain st got where g: "so_Get S (w_sessions w) (cfg_Clock cfg (w_ticks w)) ?k = (st, got)" by fastforce
  have "w1 = w\<lparr>w_sessions := st, w_ticks := w_ticks w + 3\<rparr>"
    using assms g
    by (auto simp: session_for_def cfg_sessions Let_def req_key_def req_device_def split: sum.splits if_splits)
  moreover have "content st = content (w_sessions w) \<or> content st = (content (w_sessions w))(?k := None)"
    "stale st = stale (w_sessions w)"
    using get_live [of "w_sessions w" ?k] get_stale [of "w_sessions w" ?k] get_missing [of "w_sessions w" ?k] g
    by (cases "content (w_sessions w) ?k";
        cases "stale (w_sessions w) (cfg_Clock cfg (w_ticks w)) (the (content (w_sessions w) ?k))"; fastforce)+
  ultimately show "w_queue w1 = w_queue w" "w_nonces w1 = w_nonces w" "w_hooks w1 = w_hooks w"
    "content (w_sessions w1) = content (w_sessions w)
      \<or> content (w_sessions w1) = (content (w_sessions w))(req_key req := None)"
    "stale (w_sessions w1) = stale (w_sessions w)" by simp_all
qed

text \<open>
  The three ways \<open>session\<close> ends: the request is refused, it opens a new session, or it continues
  the stored one with the next message number.
\<close>

lemma session_for_cases:
  assumes "session_for cfg req i t w = (w1, r)"
  obtains (refused) err where "r = Inl err"
  | (fresh) sess where "r = Inr (None, sess)" "req_msg req = 1" "IsPackageOne req"
      "sess = take_header req t 1 (cfg_Clock cfg (w_ticks w + 2)) (new_session req i (cfg_Clock cfg (w_ticks w + 1)))"
  | (continued) s where "r = Inr (Some s, take_header req t (req_msg req) (cfg_Clock cfg (w_ticks w + 2)) s)"
      "content (w_sessions w) (req_key req) = Some s" "ss_EnrollmentKey s = id_EnrollmentKey i"
      "\<not> stale (w_sessions w) (cfg_Clock cfg (w_ticks w)) s"
      "req_msg req = wrap64 (ss_ClientMsgID s + 1)" "w_sessions w1 = w_sessions w"
proof -
  let ?k = "req_key req" and ?n = "w_ticks w"
  obtain st got where g: "so_Get S (w_sessions w) (cfg_Clock cfg ?n) ?k = (st, got)" by fastforce
  note res = get_result [OF g]
  define found where "found = (case got of Inl err \<Rightarrow> Inl err
    | Inr s \<Rightarrow> if ss_EnrollmentKey s \<noteq> id_EnrollmentKey i then Inl [Mdm_ErrNotFound] else Inr s)"
  have eq: "(w1, r) = (let w' = w\<lparr>w_sessions := st, w_ticks := ?n + 3\<rparr> in case found of
      Inl err \<Rightarrow> if errors_is err Mdm_ErrNotFound then
          if req_msg req \<noteq> 1 then (w', Inl [Syncml_ErrInvalid])
          else if \<not> IsPackageOne req then (w', Inl [Syncml_ErrInvalid])
          else (w', Inr (None, take_header req t (req_msg req) (cfg_Clock cfg (?n + 2)) (new_session req i (cfg_Clock cfg (?n + 1)))))
        else (w', Inl err)
    | Inr s \<Rightarrow> if req_msg req \<noteq> wrap64 (ss_ClientMsgID s + 1) then (w', Inl [Syncml_ErrInvalid])
        else (w', Inr (Some s, take_header req t (req_msg req) (cfg_Clock cfg (?n + 2)) s)))"
    unfolding assms [symmetric] found_def session_for_def cfg_sessions Let_def req_msg_def
    using g by (simp add: req_key_def req_device_def)
  show thesis
  proof (cases found)
    case (Inl err)
    then show thesis
      using eq refused fresh by (auto simp: Let_def split: if_splits)
  next
    case (Inr s)
    then have "got = Inr s" "ss_EnrollmentKey s = id_EnrollmentKey i"
      by (auto simp: found_def split: sum.splits if_splits)
    then show thesis
      using eq Inr res refused continued [of s] by (auto simp: Let_def split: if_splits)
  qed
qed

lemma session_for_opened:
  assumes "W owner w" "session_for cfg req i t w = (w1, Inr ls)" "owner (id_EnrollmentKey i) = req_device req"
  shows "opened owner (cfg_MaxRequestSize cfg) req ls"
  using assms(2)
proof (cases rule: session_for_cases)
  case (refused err)
  then show ?thesis by simp
next
  case (fresh sess)
  then show ?thesis using assms(3) by (simp add: opened_def sess_ok_def in_int64_def)
next
  case (continued s)
  then have ok: "stored_ok owner (cfg_MaxRequestSize cfg) (req_key req) s"
    using assms(1) by (simp add: world_inv_def)
  then have "ss_DeviceID s = req_device req" "ss_SessionID s = h_SessionID (msg_Header req)"
    using continued assms(3) by (auto simp: stored_ok_def req_key_def SessionKey_def)
  then show ?thesis using continued ok by (simp add: opened_def stored_ok_def sess_ok_def)
qed

lemma start_frame:
  assumes "W owner w" "opened owner (cfg_MaxRequestSize cfg) req ls"
  shows "F nk (start cfg req ls w) (start cfg req ls w)"
  using assms by (simp add: frame_def reply_ids_def start_fields world_inv_def opened_def same_id_def)

text \<open>How an exchange ends: with an error, the store then showing what it shares with the working
  copy, or with the session stored or removed and the reply.\<close>

lemma exchange_runs:
  assumes "exchange cfg t req i e0 = (e', r)" "F nk e0 e0" "nk = nonceKey (id_DeviceID i)"
  obtains (failed) e1 err where "F nk e0 e1" "e' = alias_back cfg e1" "r = Inl err"
      "respond cfg t req i e0 = (e1, Inl err) \<or> (\<exists>er. respond cfg t req i e0 = (er, Inr ()) \<and> flushResults cfg er = (e1, Inl err))"
  | (finished) er e1 e2 st ending h where "respond cfg t req i e0 = (er, Inr ())" "F nk e0 er" "flushResults cfg er = (e1, Inr ())"
      "F nk e0 e1" "F nk e0 e2"
      "e2 = e1\<lparr>e_sess := (e_sess e1)\<lparr>ss_ServerMsgID := mustAtoi (h_MsgID (msg_Header (e_resp e0)))\<rparr>\<rparr>"
      "ending = (ss_Closed (e_sess e1) \<or> (b_Final (msg_Body (e_resp e1)) \<and> \<not> hasWork (e_sess e1)))"
      "content st = (content (w_sessions e0))(ss_Key (e_sess e0) := (if ending then None else Some (e_sess e2)))"
      "stale st = stale (w_sessions e0)" "e' = e2\<lparr>w_sessions := st, w_hooks := h\<rparr>"
      "conclude cfg ending (e2\<lparr>w_sessions := st\<rparr>) = (e', r)"
proof -
  obtain er x where resp: "respond cfg t req i e0 = (er, x)" by fastforce
  have fr: "F nk e0 er" using keepsD [OF keeps_respond [OF assms(3)] assms(2), of t req] by (simp add: resp)
  have ex: "exchange cfg t req i e0 =
      abind (aon_error (alias_back cfg) (abind (respond cfg t req i) (\<lambda>_. persist cfg))) (conclude cfg) e0"
    by (simp add: exchange_def)
  show thesis
  proof (cases x)
    case (Inl err)
    have "exchange cfg t req i e0 = (alias_back cfg er, Inl err)"
      unfolding ex by (rule abind_err) (simp add: aon_error_def abind_err resp Inl)
    then show thesis using failed [OF fr] assms(1) resp Inl by simp
  next
    case (Inr u)
    from fr show thesis
    proof (cases rule: persist_runs)
      case (failed e1 err)
      have "exchange cfg t req i e0 = (alias_back cfg e1, Inl err)"
        unfolding ex by (rule abind_err) (simp add: aon_error_def abind_ok resp Inr failed)
      then show thesis using that(1) [OF failed(1)] assms(1) resp Inr failed by simp
    next
      case (stored e1 e2 st ending)
      have "exchange cfg t req i e0 = conclude cfg ending (e2\<lparr>w_sessions := st\<rparr>)"
        unfolding ex by (rule abind_ok) (simp add: aon_error_def abind_ok resp Inr stored(8))
      moreover from this conclude_runs [of cfg ending "e2\<lparr>w_sessions := st\<rparr>"] obtain h where
        "e' = e2\<lparr>w_sessions := st, w_hooks := h\<rparr>" using assms(1) by (metis fst_conv)
      ultimately show thesis
        using that(2) [OF _ fr stored(2,1,4,3,5,6,7)] resp Inr assms(1) by simp
    qed
  qed
qed

text \<open>What an exchange leaves in the stores.\<close>

lemma exchange_stores:
  assumes "W owner w" "opened owner (cfg_MaxRequestSize cfg) req ls"
    and "exchange cfg t req i (start cfg req ls w) = (e', r)"
  shows "inv (w_queue e')" "records_inv (w_nonces e')"
    and "\<And>d. d \<noteq> req_device req \<Longrightarrow> view (w_queue e') d = view (w_queue w) d"
    and "\<And>k. k \<noteq> nonceKey (id_DeviceID i) \<Longrightarrow> map_of (w_nonces e') k = map_of (w_nonces w) k"
    and "\<And>k. k \<noteq> req_key req \<Longrightarrow> content (w_sessions e') k = content (w_sessions w) k"
    and "\<And>s. content (w_sessions e') (req_key req) = Some s \<Longrightarrow>
           content (w_sessions w) (req_key req) = Some s \<or> stored_ok owner (cfg_MaxRequestSize cfg) (req_key req) s"
proof -
  let ?e0 = "start cfg req ls w" and ?N = "cfg_MaxRequestSize cfg" and ?nk = "nonceKey (id_DeviceID i)"
  note f0 = start_frame [OF assms(1,2), of ?nk]
  have key: "ss_Key (e_sess ?e0) = req_key req" "ss_DeviceID (e_sess ?e0) = req_device req"
    using assms(2) by (simp_all add: opened_def start_fields)
  obtain e1 where f1: "F ?nk ?e0 e1" "w_queue e' = w_queue e1" "w_nonces e' = w_nonces e1"
    and c: "(\<forall>k. k \<noteq> req_key req \<longrightarrow> content (w_sessions e') k = content (w_sessions w) k)
      \<and> (\<forall>s. content (w_sessions e') (req_key req) = Some s \<longrightarrow>
           content (w_sessions w) (req_key req) = Some s \<or> stored_ok owner ?N (req_key req) s)"
  proof (cases rule: exchange_runs [OF assms(3) f0 refl, case_names failed finished])
    case (failed e1 err)
    have old: "stored_ok owner ?N (req_key req) old" if "e_loaded e1 = Some old" for old
      using failed(1) assms(2) that by (simp add: frame_def opened_def start_fields)
    have ws: "w_sessions e1 = w_sessions w" using failed(1) by (simp add: frame_def start_fields)
    have ok: "sess_ok ?N (e_sess e1)" using failed(1) by (simp add: frame_def)
    have "content (w_sessions (alias_back cfg e1)) = content (w_sessions e1)
      \<or> (\<exists>old. e_loaded e1 = Some old \<and>
           content (w_sessions (alias_back cfg e1)) = (content (w_sessions e1))(req_key req \<mapsto> aliased old (e_sess e1) (e_out e1)))"
      by (rule alias_back_content) (drule old, simp add: stored_ok_def)
    then have "(\<forall>k. k \<noteq> req_key req \<longrightarrow> content (w_sessions e') k = content (w_sessions w) k)
      \<and> (\<forall>s. content (w_sessions e') (req_key req) = Some s \<longrightarrow>
           content (w_sessions w) (req_key req) = Some s \<or> stored_ok owner ?N (req_key req) s)"
    proof (elim disjE exE conjE)
      fix old1 assume o: "e_loaded e1 = Some old1" and c: "content (w_sessions (alias_back cfg e1)) = (content (w_sessions e1))
          (req_key req \<mapsto> aliased old1 (e_sess e1) (e_out e1))"
      show ?thesis using stored_ok_aliased [OF old [OF o] ok] by (simp add: failed(2) c ws)
    qed (simp add: failed(2) ws)
    then show thesis using that [OF failed(1)] failed(2) by (simp add: alias_back_fields)
  next
    case (finished er e1 e2 st ending h)
    have id2: "same_id (e_sess ?e0) (e_sess e2)" "sess_ok ?N (e_sess e2)"
      using finished(5) by (simp_all add: frame_def)
    have "stored_ok owner ?N (req_key req) (e_sess e2)" if "\<not> ending"
    proof -
      have "\<not> ss_Closed (e_sess e2)" using that finished(6,7) by simp
      moreover have "ss_ServerMsgID (e_sess e2) = req_msg req"
        using assms(2) finished(6) ParseInt_range by (simp add: start_fields opened_def req_msg_def)
      ultimately show ?thesis
        using id2 assms(2) key ParseInt_range
        by (auto simp: stored_ok_def same_id_def opened_def start_fields sess_ok_def req_key_def req_msg_def)
    qed
    then show thesis
      using that [OF finished(5)] finished(8,10) key by (auto simp: start_fields)
  qed
  show "inv (w_queue e')" "records_inv (w_nonces e')"
    using f1 by (simp_all add: frame_def)
  show "view (w_queue e') d = view (w_queue w) d" if "d \<noteq> req_device req" for d
    using f1 that key by (simp add: frame_def start_fields)
  show "map_of (w_nonces e') k = map_of (w_nonces w) k" if "k \<noteq> ?nk" for k
    using f1 that by (simp add: frame_def start_fields)
  show "content (w_sessions e') k = content (w_sessions w) k" if "k \<noteq> req_key req" for k
    using c that by blast
  show "content (w_sessions w) (req_key req) = Some s \<or> stored_ok owner ?N (req_key req) s"
    if "content (w_sessions e') (req_key req) = Some s" for s using c that by blast
qed

text \<open>The whole request: the state of the service stays well formed and a request reaches only its own
  device, session and nonce.\<close>

lemma handle_keeps:
  assumes "W owner w" "handle_message cfg t req w = (w', r)"
    and own: "\<And>i. au_Lookup (cfg_Auth cfg) (req_device req) = Inr i \<Longrightarrow> owner (id_EnrollmentKey i) = req_device req"
  shows "W owner w'"
    and "\<And>d. d \<noteq> req_device req \<Longrightarrow> view (w_queue w') d = view (w_queue w) d"
    and "\<And>k. k \<noteq> req_key req \<Longrightarrow> content (w_sessions w') k = content (w_sessions w) k"
    and "\<And>k. (\<And>i. au_Lookup (cfg_Auth cfg) (req_device req) = Inr i \<Longrightarrow> k \<noteq> nonceKey (id_DeviceID i)) \<Longrightarrow>
           map_of (w_nonces w') k = map_of (w_nonces w) k"
proof -
  have "W owner w' \<and> (\<forall>d. d \<noteq> req_device req \<longrightarrow> view (w_queue w') d = view (w_queue w) d)
      \<and> (\<forall>k. k \<noteq> req_key req \<longrightarrow> content (w_sessions w') k = content (w_sessions w) k)
      \<and> (\<forall>k. (\<forall>i. au_Lookup (cfg_Auth cfg) (req_device req) = Inr i \<longrightarrow> k \<noteq> nonceKey (id_DeviceID i)) \<longrightarrow>
           map_of (w_nonces w') k = map_of (w_nonces w) k)" (is "?P w'")
  proof (cases "Validate req \<noteq> [] \<or> (\<exists>err. au_Lookup (cfg_Auth cfg) (req_device req) = Inl err)")
    case True
    then have "w' = w"
      using assms(2) by (auto simp: handle_message_def req_device_def split: if_splits)
    then show ?thesis using assms(1) by simp
  next
    case False
    then obtain i where i: "au_Lookup (cfg_Auth cfg) (req_device req) = Inr i" and v: "Validate req = []"
      by (cases "au_Lookup (cfg_Auth cfg) (req_device req)") auto
    obtain w1 x where sf: "session_for cfg req i t w = (w1, x)" by fastforce
    note sr = session_for_runs [OF sf]
    have w1: "W owner w1" using assms(1) sr by (auto simp: world_inv_def split: if_splits)
    have s1: "content (w_sessions w1) k = content (w_sessions w) k" if "k \<noteq> req_key req" for k
      using sr(4) that by auto
    show ?thesis
    proof (cases x)
      case (Inl err)
      then have "w' = w1" using assms(2) i v sf by (simp add: handle_message_def req_device_def)
      then show ?thesis using w1 sr s1 by simp
    next
      case (Inr ls)
      obtain e' y where ex: "exchange cfg t req i (start cfg req ls w1) = (e', y)" by fastforce
      have "w' = world.truncate e'" using assms(2) i v sf Inr ex by (simp add: handle_message_def req_device_def)
      moreover note es = exchange_stores [OF w1 session_for_opened [OF assms(1) sf [unfolded Inr] own [OF i]] ex]
      have "W owner (world.truncate e')"
        unfolding world_inv_def truncate_fields
      proof (intro conjI es(1,2) allI impI)
        fix k s assume "content (w_sessions e') k = Some s"
        then show "stored_ok owner (cfg_MaxRequestSize cfg) k s"
          using es(5,6) w1 by (cases "k = req_key req") (auto simp: world_inv_def)
      qed
      ultimately show ?thesis using es(3,4,5) s1 sr(1,2) i by simp
    qed
  qed
  then show "W owner w'"
    and "\<And>d. d \<noteq> req_device req \<Longrightarrow> view (w_queue w') d = view (w_queue w) d"
    and "\<And>k. k \<noteq> req_key req \<Longrightarrow> content (w_sessions w') k = content (w_sessions w) k"
    and "\<And>k. (\<And>i. au_Lookup (cfg_Auth cfg) (req_device req) = Inr i \<Longrightarrow> k \<noteq> nonceKey (id_DeviceID i)) \<Longrightarrow>
           map_of (w_nonces w') k = map_of (w_nonces w) k" by blast+
qed

end

end
