(* ===== verification/Mdm_Replies.thy ===== *)
theory Mdm_Replies
  imports Mdm_Handle
begin

text \<open>
  What the device is answered: the challenge of a request that is not trusted, the
  acknowledgements of one that is, and the commands that are delivered with them.
\<close>

section \<open>Steps that leave the reply alone\<close>

abbreviation reply_cmds :: "('q, 's) engine \<Rightarrow> command list" where
  "reply_cmds e \<equiv> b_Commands (msg_Body (e_resp e))"

text \<open>The part of the state a step must not touch: the reply, its counter, the number of the message
  and whether the session is closed.\<close>

definition quiet :: "message \<Rightarrow> nat \<Rightarrow> int \<Rightarrow> ('q, 's) engine \<Rightarrow> bool" where
  "quiet r k n e = (e_resp e = r \<and> e_ids e = k \<and> ss_ClientMsgID (e_sess e) = n)"

lemma quiet_step: "sess_step N (e_sess e) s \<Longrightarrow> quiet r k n e \<Longrightarrow> quiet r k n (e\<lparr>e_sess := s\<rparr>)"
  by (simp add: quiet_def sess_step_def same_id_def)

lemma quiet_with_sess: "(\<And>s. ss_ClientMsgID (f s) = ss_ClientMsgID s) \<Longrightarrow> keeps (quiet r k n) (with_sess f)"
  unfolding with_sess_def by (rule keeps_amodify) (simp add: quiet_def)

lemma quiet_call_hook: "keeps (quiet r k n) (call_hook cfg h)"
  by (auto simp: keeps_def call_hook_def quiet_def split: option.split)

lemma quiet_clock_now: "keeps (quiet r k n) (clock_now cfg)"
  by (simp add: keeps_def clock_now_def quiet_def)

lemma quiet_enqueue: "keeps (quiet r k n) (enqueue cfg c)" "keeps (quiet r k n) (enqueue_once cfg c)"
proof -
  have "keeps (quiet r k n) (enqueue_at cfg c at)" for at
    by (simp add: keeps_def enqueue_at_def quiet_def case_prod_beta)
  then show *: "keeps (quiet r k n) (enqueue cfg c)"
    unfolding enqueue_def by (intro keeps_intro quiet_clock_now)
  show "keeps (quiet r k n) (enqueue_once cfg c)"
    using keepsD [OF *] by (auto simp: keeps_def enqueue_once_def case_prod_beta split: sum.split)
qed

lemma assemble_items_client:
  "assemble_items i its s a = (s', r) \<Longrightarrow> ss_ClientMsgID s' = ss_ClientMsgID s"
proof (induction i its s a arbitrary: s' r rule: assemble_items.induct)
  case (2 i it its sess a)
  obtain b res where add: "assembler_Add a it = (b, res)" by (cases "assembler_Add a it")
  show ?case
  proof (cases res)
    case (Inr out)
    then show ?thesis using 2 add by (cases out) (auto split: prod.splits)
  qed (use 2 add in auto)
qed auto

lemma pending_client [simp]:
  "ss_ClientMsgID (pendingStatus s i st) = ss_ClientMsgID s" "ss_ClientMsgID (recordChild s i st) = ss_ClientMsgID s"
  "ss_ClientMsgID (stashResults s i its) = ss_ClientMsgID s"
  using pending_steps [of 0 s i] by (simp_all add: sess_step_def same_id_def)

lemma quiet_file_results: "keeps (quiet r k n) (file_results cfg res)"
proof -
  have "ss_ClientMsgID (fst (fileResults N s res)) = ss_ClientMsgID s" for N s
    using assemble_items_client
    by (fastforce simp: fileResults_def split: option.split prod.split sum.split)
  then show ?thesis by (simp add: keeps_def file_results_def quiet_def case_prod_beta)
qed

lemmas quiet_basic = quiet_with_sess quiet_call_hook quiet_clock_now quiet_enqueue quiet_file_results

lemma quiet_alert_item: "keeps (quiet r k n) (alert_item cfg code it)"
  unfolding alert_item_def by (intro keeps_intro quiet_basic) simp

lemma quiet_recordPackageOne: "keeps (quiet r k n) (recordPackageOne cfg req)"
  unfolding recordPackageOne_def queueFirstSessionReads_def push_read_def
  by (intro keeps_intro quiet_basic) (simp_all add: quiet_basic)

section \<open>Acknowledgements\<close>

text \<open>
  The statuses that answer the commands of a message, in order, after \<open>k\<close> commands of the reply. A
  Status and a Results are not answered. The status of an Alert refers to the message by the
  number it was parsed to, the others by the text of its MsgID.
\<close>

fun acks :: "message \<Rightarrow> nat \<Rightarrow> command list \<Rightarrow> command list" where
  "acks req k [] = []"
| "acks req k (c # cs) =
     (case c of
        Status _ \<Rightarrow> acks req k cs
      | Results _ \<Rightarrow> acks req k cs
      | Alert a \<Rightarrow> Status (zero_status\<lparr>s_CmdID := Itoa (int (k + 1)), s_MsgRef := Itoa (req_msg req),
            s_CmdRef := a_CmdID a, s_Cmd := CmdAlert, s_Data := data_value (Wire StatusOK)\<rparr>) # acks req (k + 1) cs
      | _ \<Rightarrow> Status (StatusFor req c (Itoa (int (k + 1))) StatusOK) # acks req (k + 1) cs)"

definition reply_start :: "message \<Rightarrow> command list" where
  "reply_start req = Status (StatusForHeader req ''1'' StatusOK) # acks req 1 (b_Commands (msg_Body req))"

text \<open>The reply holds \<open>xs\<close>, and its commands are numbered from 1.\<close>

definition says :: "int \<Rightarrow> command list \<Rightarrow> ('q, 's) engine \<Rightarrow> bool" where
  "says n xs e = (reply_cmds e = xs \<and> e_ids e = length xs \<and> ss_ClientMsgID (e_sess e) = n)"

lemma quiet_says:
  assumes "\<And>r k. keeps (quiet r k n) m"
  shows "keeps (says n xs) m"
  unfolding keeps_def
proof (intro allI impI)
  fix e :: "('a, 'b) engine" assume "says n xs e"
  then show "says n xs (fst (m e))"
    using keepsD [OF assms, of "e_resp e" "e_ids e" e] by (simp add: says_def quiet_def)
qed

lemma wp_of_keeps: "keeps I m \<Longrightarrow> I w \<Longrightarrow> wp m (\<lambda>_. I) (\<lambda>_ _. True) w"
  by (fastforce simp: keeps_def wp_def case_prod_beta split: sum.splits)

lemma wp_reply: "wp (reply mk) Q E e = Q () (e\<lparr>e_ids := e_ids e + 1, e_resp := add_command (mk (Itoa (int (e_ids e + 1)))) (e_resp e)\<rparr>)"
  by (simp add: reply_def wp_simps CmdIDs_Next_def)

lemma says_handleAlert:
  assumes "says n xs e"
  shows "wp (handleAlert cfg a) (\<lambda>_. says n (xs @ [Status (zero_status\<lparr>s_CmdID := Itoa (int (length xs + 1)),
      s_MsgRef := Itoa n, s_CmdRef := a_CmdID a, s_Cmd := CmdAlert, s_Data := data_value (Wire StatusOK)\<rparr>)]))
    (\<lambda>_ _. True) e"
proof -
  let ?ys = "xs @ [Status (alert_status (e_sess e) a (Itoa (int (length xs + 1))))]"
  have *: "keeps (says n ?ys) (let code = alert_Code a
       in if code \<in> {AlertNextMessage, AlertServerInitiated, AlertClientInitiated} then areturn ()
          else if code = AlertSessionAbort then with_sess (\<lambda>s. s\<lparr>ss_Closed := True\<rparr>)
          else if code = AlertNoEndOfData then
            with_sess (\<lambda>s. s\<lparr>ss_Assembler := map_option assembler_Reset (ss_Assembler s),
                            ss_AssemblingCommand := []\<rparr>)
          else if cfg_Hooks cfg = None then areturn ()
          else afor (alert_item cfg code) (a_Items a))"
    unfolding Let_def by (intro keeps_intro quiet_says quiet_basic quiet_alert_item) simp_all
  have ids: "e_ids e = length xs" "ss_ClientMsgID (e_sess e) = n" using assms by (simp_all add: says_def)
  have "says n ?ys (e\<lparr>e_ids := e_ids e + 1, e_resp := add_command
      (Status (alert_status (e_sess e) a (Itoa (int (e_ids e + 1))))) (e_resp e)\<rparr>)"
    using assms by (simp add: says_def)
  from wp_of_keeps [OF * this] show ?thesis
    unfolding handleAlert_def wp_abind wp_aget wp_reply alert_status_def ids .
qed

lemma says_ack_command:
  assumes "says (req_msg req) xs e"
  shows "wp (ack_command cfg req c) (\<lambda>_. says (req_msg req) (xs @ acks req (length xs) [c])) (\<lambda>_ _. True) e"
proof (cases c)
  case (Results res)
  have "keeps (says (req_msg req) xs) (file_results cfg res)" by (intro quiet_says quiet_basic)
  from wp_of_keeps [OF this assms] show ?thesis using Results by (simp add: ack_command_def)
next
  case (Alert a)
  then show ?thesis using says_handleAlert [OF assms, of cfg a] by (simp add: ack_command_def)
qed (use assms in \<open>simp_all add: ack_command_def wp_simps wp_reply says_def\<close>)

lemma acks_append: "acks req k (xs @ ys) = acks req k xs @ acks req (k + length (acks req k xs)) ys"
  by (induction xs arbitrary: k) (auto split: command.split)

lemma wp_afor_Cons: "wp (afor f (x # xs)) Q E w = wp (f x) (\<lambda>_. wp (afor f xs) Q E) E w"
  by (simp add: wp_simps)

lemma says_ack_loop:
  "says (req_msg req) xs e \<Longrightarrow>
     wp (afor (ack_command cfg req) cs) (\<lambda>_. says (req_msg req) (xs @ acks req (length xs) cs)) (\<lambda>_ _. True) e"
proof (induction cs arbitrary: xs e)
  case (Cons c cs)
  have "says (req_msg req) (xs @ acks req (length xs) (c # cs)) e'"
    if "says (req_msg req) ((xs @ acks req (length xs) [c]) @ acks req (length (xs @ acks req (length xs) [c])) cs) e'" for e'
    using that acks_append [of req "length xs" "[c]" cs] by simp
  then show ?case
    unfolding wp_afor_Cons
    by (intro wp_mono [OF says_ack_command [OF Cons.prems]] wp_mono [OF Cons.IH]) auto
qed (simp add: wp_simps)

lemma says_ackAndFile:
  assumes "says (req_msg req) xs e"
  shows "wp (ackAndFile cfg req) (\<lambda>_. says (req_msg req) (xs @ acks req (length xs) (b_Commands (msg_Body req)))) (\<lambda>_ _. True) e"
proof -
  have fs: "ss_ClientMsgID (fileStatus s st) = ss_ClientMsgID s" for s st
    using fileStatus_step [of 0 s st] by (simp add: sess_step_def same_id_def)
  have "ss_ClientMsgID (foldl fileStatus s sts) = ss_ClientMsgID s" for s sts
    by (induction sts arbitrary: s) (simp_all add: fs)
  then have "keeps (says (req_msg req) ys) (abind (with_sess (\<lambda>s. foldl fileStatus s (body_Statuses (msg_Body req)))) (\<lambda>_.
     abind (aget (\<lambda>e. ss_gotPackageOne (e_sess e))) (\<lambda>got.
       if IsPackageOne req \<and> \<not> got then recordPackageOne cfg req else areturn ())))" for ys
    by (intro keeps_intro quiet_says quiet_basic quiet_recordPackageOne)
  from wp_of_keeps [OF this] show ?thesis
    unfolding ackAndFile_def wp_abind [of "afor (ack_command cfg req) (b_Commands (msg_Body req))"]
    by (rule wp_mono [OF says_ack_loop [OF assms]])
qed

section \<open>Delivered commands\<close>

text \<open>A command without the identifiers it and the members of a group travel under.\<close>

fun unnumbered :: "command \<Rightarrow> command" where
  "unnumbered (Atomic g cs) = Atomic (g\<lparr>gp_CmdID := []\<rparr>) (map (\<lambda>c. assignID c []) cs)"
| "unnumbered (Sequence g cs) = Sequence (g\<lparr>gp_CmdID := []\<rparr>) (map (\<lambda>c. assignID c []) cs)"
| "unnumbered c = assignID c []"

lemma assignID_twice [simp]: "assignID (assignID c i) j = assignID c j"
  by (cases c) simp_all

lemma map_members_unnumbered:
  "map_members m p n cs ch = (ch', cs') \<Longrightarrow> map (\<lambda>c. assignID c []) cs' = map (\<lambda>c. assignID c []) cs"
  by (induction m p n cs ch arbitrary: ch' cs' rule: map_members.induct) (auto simp: Let_def split: prod.splits)

lemma unnumbered_mapChildren [simp]: "unnumbered (snd (mapChildren s m c p)) = unnumbered c"
  by (cases c) (auto simp: mapChildren_def Let_def map_members_unnumbered [OF prod.collapse [symmetric]])

lemma unnumbered_assignID [simp]: "unnumbered (assignID c i) = unnumbered c"
  by (cases c) simp_all

text \<open>The commands the session may be sent, and that a command of the reply is the one that is due.\<close>

definition allowed :: "session \<Rightarrow> qcmd list \<Rightarrow> qcmd list" where
  "allowed s qcs = filter (\<lambda>qc. scopeAllows s (mc_Scope (q_Command qc)) \<and> prepare s qc \<noteq> None) qcs"

definition carries :: "session \<Rightarrow> qcmd \<Rightarrow> command \<Rightarrow> bool" where
  "carries s qc c = (case prepare s qc of None \<Rightarrow> False | Some (body, _) \<Rightarrow> unnumbered c = unnumbered body)"

definition body_size :: "session \<Rightarrow> qcmd \<Rightarrow> int" where
  "body_size s qc = (case prepare s qc of None \<Rightarrow> 0 | Some (body, _) \<Rightarrow> commandSize body)"

text \<open>All three depend on these fields of the session only, which sending does not change.\<close>

lemma delivery_cong:
  assumes "ss_Facts s' = ss_Facts s" "ss_MaxObjSize s' = ss_MaxObjSize s"
  shows "allowed s' qcs = allowed s qcs" "carries s' = carries s" "body_size s' = body_size s"
proof -
  have "prepare s' = prepare s" "scopeAllows s' = scopeAllows s"
    by (simp_all only: fun_eq_iff prepare_def scopeAllows_def assms simp_thms)
  then show "allowed s' qcs = allowed s qcs" "carries s' = carries s" "body_size s' = body_size s"
    by (simp_all add: fun_eq_iff allowed_def carries_def body_size_def)
qed

lemma send_adds:
  assumes "send cfg qc body e = (e', d)"
  shows "\<exists>c. reply_cmds e' = reply_cmds e @ [c] \<and> unnumbered c = unnumbered body \<and> (server_command body \<longrightarrow> server_command c)"
  using assms
  by (auto simp: send_def CmdIDs_Next_def Let_def case_prod_beta intro!: exI [of _ "snd (mapChildren _ _ _ _)"])

text \<open>What the loop has sent: a first part of what may be sent, in order; it stops early only when the
  budget is used up or an object has to be continued, and never before the first command.\<close>

definition delivers :: "session \<Rightarrow> int \<Rightarrow> bool \<Rightarrow> qcmd list \<Rightarrow> qcmd list \<Rightarrow> command list \<Rightarrow> bool \<Rightarrow> bool" where
  "delivers s b first qcs sent cs object =
     (prefix sent (allowed s qcs) \<and> list_all2 (carries s) sent cs
      \<and> (sent \<noteq> allowed s qcs \<and> \<not> object \<longrightarrow> b \<le> sum_list (map (body_size s) sent))
      \<and> (first \<and> allowed s qcs \<noteq> [] \<longrightarrow> sent \<noteq> []))"

lemma deliver_loop_spec:
  assumes "deliver_loop cfg b ds qcs e = (e', ds')"
  shows "\<exists>sent cs. map dl_CommandID ds' = map dl_CommandID ds @ map q_ID sent \<and> reply_cmds e' = reply_cmds e @ cs
     \<and> delivers (e_sess e) b (ds = []) qcs sent cs (ss_Outgoing (e_sess e') \<noteq> None)
     \<and> (\<forall>d \<in> set ds'. d \<in> set ds \<or> dl_MsgID d = h_MsgID (msg_Header (e_resp e)))"
  using assms
proof (induction qcs arbitrary: b ds e)
  case Nil
  then show ?case by (auto simp: delivers_def allowed_def)
next
  case (Cons qc qcs)
  let ?s = "e_sess e"
  from Cons.prems show ?case
  proof (cases rule: deliver_loop_Cons)
    case skip
    then have "allowed ?s (qc # qcs) = allowed ?s qcs" by (auto simp: allowed_def)
    then show ?thesis using Cons.IH [OF skip(2)] by (simp add: delivers_def)
  next
    case full
    then show ?thesis by (intro exI [of _ "[]"]) (simp add: delivers_def)
  next
    case (object body chunks e1 d)
    obtain c where c: "reply_cmds e1 = reply_cmds e @ [c]" "unnumbered c = unnumbered body"
      using send_adds [OF object(3)] by blast
    have "reply_cmds e' = reply_cmds e @ [c]" "ss_Outgoing (e_sess e') \<noteq> None"
      unfolding object(4) using c(1) by simp_all
    moreover have "prefix [qc] (allowed ?s (qc # qcs))" "carries ?s qc c"
      using object(1,2) c(2) by (simp_all add: allowed_def carries_def)
    ultimately show ?thesis
      using send_fields(2,3) [OF object(3)] object(5)
      by (intro exI [of _ "[qc]"] exI [of _ "[c]"]) (simp add: delivers_def)
  next
    case (more body e1 d)
    obtain c where c: "reply_cmds e1 = reply_cmds e @ [c]" "unnumbered c = unnumbered body"
      using send_adds [OF more(3)] by blast
    note same = delivery_cong [OF send_fields(5,6) [OF more(3)]]
    obtain sent cs where "map dl_CommandID ds' = map dl_CommandID (ds @ [d]) @ map q_ID sent"
      "reply_cmds e' = reply_cmds e1 @ cs"
      "delivers ?s (b - commandSize body) False qcs sent cs (ss_Outgoing (e_sess e') \<noteq> None)"
      "\<forall>x \<in> set ds'. x \<in> set (ds @ [d]) \<or> dl_MsgID x = h_MsgID (msg_Header (e_resp e1))"
      using Cons.IH [OF more(4)] unfolding delivers_def same by auto
    moreover have "allowed ?s (qc # qcs) = qc # allowed ?s qcs" "carries ?s qc c" "body_size ?s qc = commandSize body"
      using more(1,2) c(2) by (simp_all add: allowed_def carries_def body_size_def)
    ultimately show ?thesis
      using send_fields(2,3,7) [OF more(3)] c(1)
      by (intro exI [of _ "qc # sent"] exI [of _ "c # cs"]) (auto simp: delivers_def)
  qed
qed

section \<open>The whole reply\<close>

text \<open>A message the server does not trust: one status with a challenge, and nothing else happens.\<close>

definition challenge_status :: "message \<Rightarrow> authOutcome \<Rightarrow> nat \<Rightarrow> chal \<Rightarrow> status" where
  "challenge_status req oc k ch =
     (StatusForHeader req (Itoa (int (k + 1)))
        (if oc = authRejected then StatusInvalidCredentials else StatusAuthenticationRequired))\<lparr>s_Chal := Some ch\<rparr>"

lemma issue_nonce_fields:
  assumes "issue_nonce cfg d e = (e', r)"
  shows "w_queue e' = w_queue e" "w_hooks e' = w_hooks e" "e_sess e' = e_sess e" "e_resp e' = e_resp e" "e_ids e' = e_ids e"
  using assms by (auto simp: issue_nonce_def Let_def split: prod.splits)

lemma challenge_runs:
  assumes "challenge cfg req i oc e = (e', Inr ())"
  obtains ch e1 where "e' = e1\<lparr>e_ids := e_ids e + 1,
      e_resp := add_command (Status (challenge_status req oc (e_ids e) ch)) (e_resp e),
      e_sess := (e_sess e)\<lparr>ss_Challenged := ss_Challenged (e_sess e) + 1\<rparr>\<rparr>"
    "w_queue e1 = w_queue e" "w_hooks e1 = w_hooks e"
    "id_AuthType i = AuthBasic \<Longrightarrow> ch = NewBasicChal" "id_AuthType i \<noteq> AuthBasic \<Longrightarrow> \<exists>n. ch = NewMD5Chal n"
proof (cases "id_AuthType i = AuthBasic")
  case True
  have "e' = e\<lparr>e_ids := e_ids e + 1,
      e_resp := add_command (Status (challenge_status req oc (e_ids e) NewBasicChal)) (e_resp e),
      e_sess := (e_sess e)\<lparr>ss_Challenged := ss_Challenged (e_sess e) + 1\<rparr>\<rparr>"
    using assms True
    by (simp add: challenge_def reply_def with_sess_def CmdIDs_Next_def challenge_status_def amodify_def Let_def)
  then show thesis using that True by blast
next
  case False
  obtain e1 r where n: "issue_nonce cfg (id_DeviceID i) e = (e1, r)" by fastforce
  show thesis
  proof (cases r)
    case (Inl err)
    then have "challenge cfg req i oc e = (e1, Inl err)"
      using False n by (simp add: challenge_def abind_def Let_def)
    then show thesis using assms by simp
  next
    case (Inr nonce)
    have "challenge cfg req i oc e = abind (reply (\<lambda>cid. Status ((StatusForHeader req cid
        (if oc = authRejected then StatusInvalidCredentials else StatusAuthenticationRequired))\<lparr>s_Chal := Some (NewMD5Chal nonce)\<rparr>)))
        (\<lambda>_. with_sess (\<lambda>s. s\<lparr>ss_Challenged := ss_Challenged s + 1\<rparr>)) e1"
      using False unfolding challenge_def Let_def by (simp add: abind_ok [of _ e e1 nonce] n Inr)
    then have "e' = e1\<lparr>e_ids := e_ids e + 1,
        e_resp := add_command (Status (challenge_status req oc (e_ids e) (NewMD5Chal nonce))) (e_resp e),
        e_sess := (e_sess e)\<lparr>ss_Challenged := ss_Challenged (e_sess e) + 1\<rparr>\<rparr>"
      using assms issue_nonce_fields [OF n]
      by (simp add: reply_def with_sess_def CmdIDs_Next_def challenge_status_def amodify_def)
    then show thesis using that issue_nonce_fields [OF n] False by blast
  qed
qed

lemma authenticate_fields:
  assumes "authenticate cfg req i t e = (e1, r)"
  shows "w_queue e1 = w_queue e" "w_hooks e1 = w_hooks e" "e_resp e1 = e_resp e" "e_ids e1 = e_ids e"
    "ss_ClientMsgID (e_sess e1) = ss_ClientMsgID (e_sess e)" "ss_Closed (e_sess e1) = ss_Closed (e_sess e)"
    "ss_results (e_sess e1) = ss_results (e_sess e)" "ss_Authenticated (e_sess e1) = (r = Inr authTrusted)"
  using assms by (auto simp: authenticate_def Let_def split: if_splits)

lemma authenticate_returns: obtains e1 oc where "authenticate cfg req i t e = (e1, Inr oc)"
proof -
  have "\<exists>oc. snd (authenticate cfg req i t e) = Inr oc" by (simp add: authenticate_def Let_def)
  then show thesis using that by (metis prod.collapse)
qed

lemma respond_untrusted:
  assumes "authenticate cfg req i t e = (e1, Inr oc)" "oc \<noteq> authTrusted" "respond cfg t req i e = (e', Inr ())"
  shows "w_queue e' = w_queue e" "w_hooks e' = w_hooks e" "ss_Closed (e_sess e') = ss_Closed (e_sess e)"
    "\<not> ss_Authenticated (e_sess e')" "b_Final (msg_Body (e_resp e')) = b_Final (msg_Body (e_resp e))"
    "\<exists>ch. reply_cmds e' = reply_cmds e @ [Status (challenge_status req oc (e_ids e) ch)]
       \<and> (if id_AuthType i = AuthBasic then ch = NewBasicChal else (\<exists>n. ch = NewMD5Chal n))"
proof -
  have "respond cfg t req i e = challenge cfg req i oc e1"
    unfolding respond_def
    by (subst abind_ok [of "authenticate cfg req i t", OF assms(1)], simp only: if_P [OF assms(2)])
  with assms(3) have c: "challenge cfg req i oc e1 = (e', Inr ())" by simp
  note f = authenticate_fields [OF assms(1)]
  obtain ch e2 where r: "e' = e2\<lparr>e_ids := e_ids e1 + 1,
      e_resp := add_command (Status (challenge_status req oc (e_ids e1) ch)) (e_resp e1),
      e_sess := (e_sess e1)\<lparr>ss_Challenged := ss_Challenged (e_sess e1) + 1\<rparr>\<rparr>"
    "w_queue e2 = w_queue e1" "w_hooks e2 = w_hooks e1"
    "if id_AuthType i = AuthBasic then ch = NewBasicChal else (\<exists>n. ch = NewMD5Chal n)"
    using challenge_runs [OF c] by metis
  show "w_queue e' = w_queue e" "w_hooks e' = w_hooks e" "ss_Closed (e_sess e') = ss_Closed (e_sess e)"
    "\<not> ss_Authenticated (e_sess e')" "b_Final (msg_Body (e_resp e')) = b_Final (msg_Body (e_resp e))"
    unfolding r(1) using r(2,3) f assms(2) by simp_all
  have "reply_cmds e' = reply_cmds e @ [Status (challenge_status req oc (e_ids e) ch)]"
    unfolding r(1) using f(3,4) by simp
  then show "\<exists>ch. reply_cmds e' = reply_cmds e @ [Status (challenge_status req oc (e_ids e) ch)]
       \<and> (if id_AuthType i = AuthBasic then ch = NewBasicChal else (\<exists>n. ch = NewMD5Chal n))"
    using r(4) by blast
qed

text \<open>Filing the answers at the end touches neither the reply nor the hooks.\<close>

lemma flushResults_fields:
  assumes "flushResults cfg e = (e', r)"
  shows "e_resp e' = e_resp e" "w_hooks e' = w_hooks e" "ss_Closed (e_sess e') = ss_Closed (e_sess e)"
    "ss_Authenticated (e_sess e') = ss_Authenticated (e_sess e)" "ss_unenroll (e_sess e') = ss_unenroll (e_sess e)"
proof -
  let ?I = "\<lambda>x :: ('a, 'b) engine. e_resp x = e_resp e \<and> w_hooks x = w_hooks e \<and> ss_Closed (e_sess x) = ss_Closed (e_sess e)
    \<and> ss_Authenticated (e_sess x) = ss_Authenticated (e_sess e) \<and> ss_unenroll (e_sess x) = ss_unenroll (e_sess e)"
  have "keeps ?I (clock_now cfg)" "keeps ?I (store_result cfg i rs)"
    "keeps ?I (with_sess (\<lambda>s. s\<lparr>ss_results := map_option (AList.delete j) (ss_results s)\<rparr>))" for i rs j
    by (simp_all add: keeps_def clock_now_def store_result_def with_sess_def amodify_def case_prod_beta)
  then have "keeps ?I (flushResults cfg)"
    unfolding flushResults_def flush_one_def by (intro keeps_intro)
  from keepsD [OF this, of e] show "e_resp e' = e_resp e" "w_hooks e' = w_hooks e" "ss_Closed (e_sess e') = ss_Closed (e_sess e)"
    "ss_Authenticated (e_sess e') = ss_Authenticated (e_sess e)" "ss_unenroll (e_sess e') = ss_unenroll (e_sess e)"
    using assms by simp_all
qed

text \<open>A trusted message: the header and every command are acknowledged first; what follows in the
  reply are no further acknowledgements, and nothing follows when the session is closed.\<close>

definition no_acks :: "command list \<Rightarrow> bool" where
  "no_acks cs = (\<forall>st. Status st \<in> set cs \<longrightarrow> s_CmdRef st = ''0'')"

definition extends :: "command list \<Rightarrow> ('q, 's) engine \<Rightarrow> bool" where
  "extends xs e = (\<exists>ys. reply_cmds e = xs @ ys \<and> no_acks ys)"

lemma extends_add: "extends xs e \<Longrightarrow> no_acks ys \<Longrightarrow> reply_cmds e' = reply_cmds e @ ys \<Longrightarrow> extends xs e'"
  by (auto simp: extends_def no_acks_def)

lemma carries_server:
  "carries s qc c \<Longrightarrow> mcmd_ok (q_Command qc) \<Longrightarrow> server_command c"
proof -
  assume "carries s qc c" and ok: "mcmd_ok (q_Command qc)"
  then obtain body chunks where p: "prepare s qc = Some (body, chunks)" "unnumbered c = unnumbered body"
    by (auto simp: carries_def split: option.splits)
  have "server_command body" using prepare_server [OF p(1) ok] .
  moreover have "server_command (unnumbered x) = server_command x" for x
    by (cases x) (simp_all add: server_command_def)
  ultimately show ?thesis using p(2) by metis
qed

text \<open>Answers that are filed change only the entries they answer.\<close>

definition only_answered :: "qcmd list \<Rightarrow> qcmd list \<Rightarrow> bool" where
  "only_answered cs cs' = list_all2 (\<lambda>a b. b = a \<or> (\<exists>r. b = store r a)) cs cs'"

lemma only_answered_refl: "only_answered cs cs"
  by (simp add: only_answered_def list_all2_refl)

lemma only_answered_store:
  "only_answered cs cs' \<Longrightarrow> only_answered cs (map (\<lambda>c. if q_ID c = i then store r c else c) cs')"
  unfolding only_answered_def list_all2_map2
  by (erule list_all2_mono) (auto simp: store_def)

definition trusted :: "('q, 's) config \<Rightarrow> transport option \<Rightarrow> message \<Rightarrow> ('q, 's) world \<Rightarrow> bool" where
  "trusted cfg t req w =
     (case au_Lookup (cfg_Auth cfg) (req_device req) of
        Inl _ \<Rightarrow> False
      | Inr i \<Rightarrow> (case session_for cfg req i t w of
            (w1, Inl _) \<Rightarrow> False
          | (w1, Inr ls) \<Rightarrow> snd (authenticate cfg req i t (start cfg req ls w1)) = Inr authTrusted))"

text \<open>A flag of the session, \<open>Closed\<close> or \<open>unenroll\<close>, that no step of a message clears.\<close>

definition sticky :: "(session \<Rightarrow> bool) \<Rightarrow> bool" where
  "sticky P = (P = ss_Closed \<or> P = ss_unenroll)"

abbreviation flag :: "(session \<Rightarrow> bool) \<Rightarrow> ('q, 's) engine \<Rightarrow> bool" where
  "flag P e \<equiv> P (e_sess e)"

lemma flag_with_sess: "(\<And>s. P s \<Longrightarrow> P (f s)) \<Longrightarrow> keeps (flag P) (with_sess f)"
  unfolding with_sess_def by (rule keeps_amodify) simp

lemma flag_basic:
  "keeps (flag P) (call_hook cfg h)" "keeps (flag P) (clock_now cfg)" "keeps (flag P) (reply mk)"
  "keeps (flag P) (enqueue cfg c)" "keeps (flag P) (enqueue_once cfg c)"
proof -
  show "keeps (flag P) (call_hook cfg h)" "keeps (flag P) (reply mk)" and now: "keeps (flag P) (clock_now cfg)"
    by (auto simp: keeps_def call_hook_def clock_now_def reply_def amodify_def CmdIDs_Next_def split: option.split)
  have "keeps (flag P) (enqueue_at cfg c at)" for at
    by (simp add: keeps_def enqueue_at_def case_prod_beta)
  then show *: "keeps (flag P) (enqueue cfg c)"
    unfolding enqueue_def by (intro keeps_intro now)
  show "keeps (flag P) (enqueue_once cfg c)"
    using keepsD [OF *] by (auto simp: keeps_def enqueue_once_def case_prod_beta split: sum.split)
qed

lemma assemble_items_flags:
  "assemble_items i its s a = (s', r) \<Longrightarrow> ss_Closed s' = ss_Closed s \<and> ss_unenroll s' = ss_unenroll s"
proof (induction i its s a arbitrary: s' r rule: assemble_items.induct)
  case (2 i it its sess a)
  obtain b res where add: "assembler_Add a it = (b, res)" by (cases "assembler_Add a it")
  show ?case
  proof (cases res)
    case (Inr out)
    then show ?thesis using 2 add by (cases out) (auto split: prod.splits)
  qed (use 2 add in auto)
qed auto

lemma flag_sessions:
  assumes "sticky P"
  shows "P (fst (fileResults N s res)) = P s" "P (foldl fileStatus s sts) = P s"
proof -
  show "P (fst (fileResults N s res)) = P s"
    using assms
    by (auto simp: sticky_def fileResults_def stashResults_def dest!: assemble_items_flags split: option.split prod.split sum.split)
  have *: "P (fileStatus s st) = P s" for s st
    using assms
    by (auto simp: sticky_def fileStatus_def Let_def recordChild_def pendingStatus_def split: option.split)
  show "P (foldl fileStatus s sts) = P s"
    by (induction sts arbitrary: s) (simp_all add: *)
qed

lemma flag_alert_item: "sticky P \<Longrightarrow> keeps (flag P) (alert_item cfg code it)"
  unfolding alert_item_def by (intro keeps_intro flag_basic flag_with_sess) (auto simp: sticky_def)

lemma flag_ack_command:
  assumes "sticky P"
  shows "keeps (flag P) (ack_command cfg req c)"
proof -
  have "keeps (flag P) (file_results cfg res)" for res
    by (simp add: keeps_def file_results_def case_prod_beta flag_sessions [OF assms])
  moreover have "keeps (flag P) (handleAlert cfg a)" for a
    using assms unfolding handleAlert_def Let_def
    by (intro keeps_intro flag_basic flag_with_sess flag_alert_item) (auto simp: sticky_def)
  ultimately show ?thesis
    by (cases c) (auto simp: ack_command_def intro!: keeps_areturn flag_basic)
qed

lemma wp_always: "(\<And>x w. Q x w) \<Longrightarrow> wp m Q (\<lambda>_ _. True) w"
  by (simp add: wp_def split: prod.split sum.split)

lemma wp_afor_reaches:
  assumes "x \<in> set xs" "\<And>v. wp (f x) (\<lambda>_. I) (\<lambda>_ _. True) v" "\<And>y. keeps I (f y)"
  shows "wp (afor f xs) (\<lambda>_. I) (\<lambda>_ _. True) w"
proof -
  obtain ys zs where xs: "xs = ys @ x # zs" using assms(1) by (meson split_list)
  have "keeps I (afor f zs)" using assms(3) by (rule keeps_afor)
  then have "wp (afor f (x # zs)) (\<lambda>_. I) (\<lambda>_ _. True) v" for v
    unfolding wp_afor_Cons by (intro wp_mono [OF assms(2)] wp_of_keeps)
  then have "wp (afor f (ys @ x # zs)) (\<lambda>_. I) (\<lambda>_ _. True) v" for v
    by (induction ys arbitrary: v) (simp_all only: append.simps wp_afor_Cons wp_always)
  then show ?thesis by (simp add: xs)
qed

definition unenroll_alert :: "('q, 's) config \<Rightarrow> alert \<Rightarrow> bool" where
  "unenroll_alert cfg a =
     (alert_Code a = AlertGeneric \<and> cfg_Hooks cfg \<noteq> None \<and> list_ex isUnenrollAlert (a_Items a))"

lemma unenroll_alert_sets:
  assumes "unenroll_alert cfg a" "sticky P"
  shows "wp (handleAlert cfg a) (\<lambda>_. flag P) (\<lambda>_ _. True) e"
proof -
  obtain it where g: "alert_Code a = AlertGeneric" "cfg_Hooks cfg \<noteq> None" "it \<in> set (a_Items a)" "isUnenrollAlert it"
    using assms by (auto simp: unenroll_alert_def list_ex_iff)
  have "wp (alert_item cfg AlertGeneric it) (\<lambda>_. flag P) (\<lambda>_ _. True) w" for w :: "('a, 'b) engine"
    using g(4) assms(2) unfolding alert_item_def wp_abind wp_aget
    by (auto simp: sticky_def wp_simps with_sess_def wp_always)
  from wp_afor_reaches [where f = "alert_item cfg AlertGeneric" and I = "flag P", OF g(3) this flag_alert_item [OF assms(2)]] g(1,2)
  show ?thesis
    by (auto simp: handleAlert_def wp_simps wp_reply alert_codes)
qed

text \<open>Alerts that end the session: an abort, or an unenrollment that is reported to the hooks.\<close>

definition closing_alert :: "('q, 's) config \<Rightarrow> alert \<Rightarrow> bool" where
  "closing_alert cfg a = (alert_Code a = AlertSessionAbort \<or> unenroll_alert cfg a)"

lemma closing_alert_closes:
  assumes "closing_alert cfg a"
  shows "wp (handleAlert cfg a) (\<lambda>_. flag ss_Closed) (\<lambda>_ _. True) e"
proof (cases "alert_Code a = AlertSessionAbort")
  case True
  then show ?thesis by (simp add: handleAlert_def wp_simps wp_reply with_sess_def alert_codes)
qed (use assms in \<open>simp add: closing_alert_def unenroll_alert_sets sticky_def\<close>)

lemma ackAndFile_sets:
  assumes "Alert a \<in> set (b_Commands (msg_Body req))" "ackAndFile cfg req e = (e', Inr ())" "sticky P"
    and "\<And>w. wp (handleAlert cfg a) (\<lambda>_. flag P) (\<lambda>_ _. True) w"
  shows "P (e_sess e')"
proof -
  have c: "wp (ack_command cfg req (Alert a)) (\<lambda>_. flag P) (\<lambda>_ _. True) w" for w :: "('a, 'b) engine"
    using assms(4) by (simp add: ack_command_def)
  have "keeps (flag P) (recordPackageOne cfg req)"
    using assms(3) unfolding recordPackageOne_def queueFirstSessionReads_def push_read_def
    by (intro keeps_intro flag_basic flag_with_sess) (auto simp: flag_basic sticky_def)
  then have "keeps (flag P) (abind (with_sess (\<lambda>s. foldl fileStatus s (body_Statuses (msg_Body req)))) (\<lambda>_.
     abind (aget (\<lambda>e. ss_gotPackageOne (e_sess e))) (\<lambda>got.
       if IsPackageOne req \<and> \<not> got then recordPackageOne cfg req else areturn ())))"
    by (intro keeps_intro flag_with_sess) (simp_all add: flag_sessions [OF assms(3)])
  from wp_of_keeps [OF this] have "wp (ackAndFile cfg req) (\<lambda>_. flag P) (\<lambda>_ _. True) e"
    unfolding ackAndFile_def wp_abind [of "afor (ack_command cfg req) (b_Commands (msg_Body req))"]
    by (rule wp_mono [OF wp_afor_reaches [where f = "ack_command cfg req" and I = "flag P", OF assms(1) c flag_ack_command [OF assms(3)]]])
  then show ?thesis using assms(2) by (simp add: wp_def)
qed

context mdm_engine
begin

text \<open>Delivery as a whole: what is sent, and that it is marked as sent in this message.\<close>

lemma deliver_sends:
  assumes "F nk e0 e" "\<not> uploading (e_sess e)"
  defines "cmds \<equiv> view (w_queue e) (ss_DeviceID (e_sess e))"
  shows "\<exists>e' sent cs ds. deliver cfg e = (e', Inr ()) \<and> reply_cmds e' = reply_cmds e @ cs
    \<and> delivers (e_sess e) (cfg_MaxMessageBytes cfg - int (length (reply_cmds e)) * 128) True
        (take 256 (filter deliverable cmds)) sent cs (ss_Outgoing (e_sess e') \<noteq> None)
    \<and> map dl_CommandID ds = map q_ID sent \<and> (\<forall>d \<in> set ds. dl_MsgID d = h_MsgID (msg_Header (e_resp e)))
    \<and> view (w_queue e') = (view (w_queue e))(ss_DeviceID (e_sess e) := map (mark_with ds) cmds)
    \<and> b_Final (msg_Body (e_resp e')) = (ss_Outgoing (e_sess e') = None)"
proof -
  from deliver_runs [OF assms(1,2)] obtain e1 ds q where
    r: "deliver_loop cfg (cfg_MaxMessageBytes cfg - int (length (reply_cmds e)) * 128) []
       (take 256 (filter deliverable cmds)) e = (e1, ds)"
    "view q = (view (w_queue e))(ss_DeviceID (e_sess e) := map (mark_with ds) cmds)"
    "deliver cfg e = (e1\<lparr>w_queue := q, e_resp := set_final (ss_Outgoing (e_sess e1) = None) (e_resp e1)\<rparr>, Inr ())"
    unfolding cmds_def by metis
  show ?thesis
    using deliver_loop_spec [OF r(1)] r(2,3) by auto
qed

lemma deliver_extends:
  assumes "F nk e0 e" "extends xs e"
  shows "extends xs (fst (deliver cfg e))"
proof (cases "uploading (e_sess e)")
  case True
  have "reply_cmds (fst (deliver cfg e)) = reply_cmds e @
      [Status (chunk_status (e_sess e) (Itoa (int (e_ids e + 1)))),
       Alert (zero_alert\<lparr>a_CmdID := Itoa (int (e_ids e + 2)), a_Data := Wire AlertNextMessage\<rparr>)]"
    using True by (simp add: deliver_def reply_def set_reply_final_def CmdIDs_Next_def amodify_def)
  then show ?thesis by (rule extends_add [OF assms(2), rotated]) (simp add: no_acks_def chunk_status_def)
next
  case False
  obtain e1 ds q where r: "deliver_loop cfg (cfg_MaxMessageBytes cfg - int (length (reply_cmds e)) * 128) []
       (take 256 (filter deliverable (view (w_queue e) (ss_DeviceID (e_sess e))))) e = (e1, ds)"
    "deliver cfg e = (e1\<lparr>w_queue := q, e_resp := set_final (ss_Outgoing (e_sess e1) = None) (e_resp e1)\<rparr>, Inr ())"
    using deliver_runs [OF assms(1) False] by metis
  obtain sent cs where d: "reply_cmds e1 = reply_cmds e @ cs" "delivers (e_sess e)
      (cfg_MaxMessageBytes cfg - int (length (reply_cmds e)) * 128) True
      (take 256 (filter deliverable (view (w_queue e) (ss_DeviceID (e_sess e))))) sent cs (ss_Outgoing (e_sess e1) \<noteq> None)"
    using deliver_loop_spec [OF r(1)] by auto
  have i: "inv (w_queue e)" using assms(1) by (simp add: frame_def)
  have "set sent \<subseteq> set (view (w_queue e) (ss_DeviceID (e_sess e)))"
    using d(2) set_mono_prefix unfolding delivers_def allowed_def
    by (meson filter_is_subset order_trans set_take_subset)
  then have "server_command c" if "c \<in> set cs" for c
    using d(2) that carries_server view_valid [OF i] unfolding delivers_def
    by (metis list_all2_conv_all_nth in_set_conv_nth subsetD nth_mem)
  then have "no_acks cs" by (auto simp: no_acks_def server_command_def)
  then show ?thesis
    by (rule extends_add [OF assms(2)]) (simp add: r(2) d(1))
qed

lemma continueOrNext_extends:
  assumes "F nk e0 e" "extends xs e"
  shows "extends xs (fst (continueOrNext cfg e))"
proof -
  have "extends xs (send_chunk og nxt rest e)" for og nxt rest
    by (rule extends_add [OF assms(2), of "[Replace (zero_cmd\<lparr>c_CmdID := Itoa (int (e_ids e + 1)), c_Items := [nxt]\<rparr>)]"])
       (simp_all add: no_acks_def send_chunk_def CmdIDs_Next_def Let_def)
  then show ?thesis
    using deliver_extends [OF assms]
    by (simp add: continueOrNext_def amodify_def split: option.split list.split)
qed

text \<open>The answered message up to the decision what to deliver.\<close>

lemma respond_trusted:
  assumes "F nk e0 e" "authenticate cfg req i t e = (e1, Inr authTrusted)" "respond cfg t req i e = (e', Inr ())"
    and "says (req_msg req) [] e"
  obtains e2 ea where "says (req_msg req) [Status (StatusForHeader req ''1'' StatusOK)] e2"
    "e_sess e2 = e_sess e1" "w_hooks e2 = w_hooks e" "w_queue e2 = w_queue e"
    "ackAndFile cfg req e2 = (ea, Inr ())" "says (req_msg req) (reply_start req) ea" "F nk e0 ea"
    "if ss_Closed (e_sess ea) then e' = ea\<lparr>e_resp := set_final True (e_resp ea)\<rparr> else extends (reply_start req) e'"
proof -
  note f = authenticate_fields [OF assms(2)]
  define e2 where "e2 = e1\<lparr>e_ids := e_ids e1 + 1, e_resp := add_command (Status (StatusForHeader req (Itoa (int (e_ids e1 + 1))) StatusOK)) (e_resp e1)\<rparr>"
  have one: "Itoa 1 = ''1''" by (rule Itoa_1)
  have s2: "says (req_msg req) [Status (StatusForHeader req ''1'' StatusOK)] e2"
    using assms(4) f by (simp add: says_def e2_def one)
  have f1: "F nk e0 e1" using keepsD [OF keeps_authenticate assms(1), of cfg req i t] by (simp add: assms(2))
  have f2: "F nk e0 e2"
    using keepsD [OF keeps_reply f1, of "\<lambda>cid. Status (StatusForHeader req cid StatusOK)"]
    by (simp add: reply_def amodify_def CmdIDs_Next_def e2_def)
  define next' where "next' = abind (aget (\<lambda>e. ss_Closed (e_sess e))) (\<lambda>closed.
           if closed then set_reply_final (\<lambda>_. True)
           else if IsNextMessageRequest req \<and> length (body_Statuses (msg_Body req)) \<le> 1 then continueOrNext cfg
           else deliver cfg)"
  have "respond cfg t req i e = abind (reply (\<lambda>cid. Status (StatusForHeader req cid StatusOK))) (\<lambda>_.
      abind (ackAndFile cfg req) (\<lambda>_. next')) e1"
    unfolding respond_def next'_def by (subst abind_ok [of "authenticate cfg req i t", OF assms(2)], simp only: if_False simp_thms)
  also have "\<dots> = abind (ackAndFile cfg req) (\<lambda>_. next') e2"
    by (rule abind_ok) (simp add: reply_def amodify_def CmdIDs_Next_def e2_def)
  finally have run: "abind (ackAndFile cfg req) (\<lambda>_. next') e2 = (e', Inr ())" using assms(3) by simp
  obtain ea where ea: "ackAndFile cfg req e2 = (ea, Inr ())" "next' ea = (e', Inr ())"
    using run by (auto simp: abind_def split: prod.splits sum.splits)
  have sa: "says (req_msg req) (reply_start req) ea"
    using says_ackAndFile [OF s2, of cfg] by (simp add: wp_def ea(1) reply_start_def)
  have fa: "F nk e0 ea" using keepsD [OF keeps_ackAndFile f2, of req] by (simp add: ea(1))
  have "extends (reply_start req) ea" using sa by (auto simp: says_def extends_def no_acks_def)
  then have "if ss_Closed (e_sess ea) then e' = ea\<lparr>e_resp := set_final True (e_resp ea)\<rparr> else extends (reply_start req) e'"
    using ea(2) deliver_extends [OF fa] continueOrNext_extends [OF fa]
    by (auto simp: next'_def set_reply_final_def amodify_def split: if_splits)
  then show thesis
    using that [OF s2 _ _ _ ea(1) sa fa] f by (simp add: e2_def)
qed

lemma flushResults_queue:
  assumes "inv (w_queue e)" "flushResults cfg e = (e', r)"
  shows "only_answered (view (w_queue e) d) (view (w_queue e') d)"
proof -
  let ?I = "\<lambda>x :: ('q, 's) engine. inv (w_queue x) \<and> only_answered (view (w_queue e) d) (view (w_queue x) d)"
  have st: "keeps ?I (store_result cfg i rs)" for i rs
    unfolding keeps_def
  proof (intro allI impI)
    fix x :: "('q, 's) engine" assume x: "?I x"
    let ?d = "ss_DeviceID (e_sess x)"
    show "?I (fst (store_result cfg i rs x))"
    proof (cases "i \<in> q_ID ` set (view (w_queue x) ?d)")
      case True
      then show ?thesis
        using store_ok [of "w_queue x" i ?d rs] x only_answered_store [of _ _ i rs]
        by (auto simp: store_result_def cfg_queue)
    next
      case False
      then show ?thesis
        using store_err [of "w_queue x" i ?d rs] x by (auto simp: store_result_def cfg_queue)
    qed
  qed
  have "keeps ?I (clock_now cfg)" "keeps ?I (with_sess f)" for f
    by (simp_all add: keeps_def clock_now_def with_sess_def amodify_def)
  with st have "keeps ?I (flushResults cfg)"
    unfolding flushResults_def flush_one_def by (intro keeps_intro)
  from keepsD [OF this, of e] show ?thesis using assms by (simp add: only_answered_refl)
qed

text \<open>A handled request: the exchange behind it.\<close>

lemma handle_cases:
  assumes "handle_message cfg t req w = (w', Inr m)" "W owner w"
    and "\<And>i. au_Lookup (cfg_Auth cfg) (req_device req) = Inr i \<Longrightarrow> owner (id_EnrollmentKey i) = req_device req"
  obtains i w1 ls e' where "Validate req = []" "au_Lookup (cfg_Auth cfg) (req_device req) = Inr i"
    "session_for cfg req i t w = (w1, Inr ls)" "opened owner (cfg_MaxRequestSize cfg) req ls" "W owner w1"
    "exchange cfg t req i (start cfg req ls w1) = (e', Inr m)" "w' = world.truncate e'"
    "w_queue w1 = w_queue w" "w_hooks w1 = w_hooks w"
proof -
  obtain i where i: "Validate req = []" "au_Lookup (cfg_Auth cfg) (req_device req) = Inr i"
    using assms(1) by (auto simp: handle_message_def req_device_def split: if_splits sum.splits)
  obtain w1 sr where s: "session_for cfg req i t w = (w1, sr)" by fastforce
  obtain ls where sr: "sr = Inr ls"
    using assms(1) i s by (cases sr) (auto simp: handle_message_def req_device_def)
  obtain e' where e: "exchange cfg t req i (start cfg req ls w1) = (e', Inr m)" "w' = world.truncate e'"
    using assms(1) i s sr by (auto simp: handle_message_def req_device_def split: prod.splits)
  have "opened owner (cfg_MaxRequestSize cfg) req ls"
    using session_for_opened [OF assms(2)] s sr assms(3) [OF i(2)] by blast
  moreover have "W owner w1"
    using assms(2) session_for_runs [OF s] by (auto simp: world_inv_def split: if_splits)
  ultimately show thesis using that i s sr e session_for_runs [OF s] by blast
qed

lemma handle_untrusted:
  assumes "handle_message cfg t req w = (w', Inr m)" "W owner w"
    and "\<And>i. au_Lookup (cfg_Auth cfg) (req_device req) = Inr i \<Longrightarrow> owner (id_EnrollmentKey i) = req_device req"
    and "\<not> trusted cfg t req w"
  shows "\<exists>resp oc ch. m = Some resp \<and> b_Commands (msg_Body resp) = [Status (challenge_status req oc 0 ch)]"
    and "w_hooks w' = w_hooks w" "only_answered (view (w_queue w) d) (view (w_queue w') d)"
    and "\<exists>s. content (w_sessions w') (req_key req) = Some s \<and> \<not> ss_Authenticated s"
proof -
  obtain i w1 ls e' where h: "au_Lookup (cfg_Auth cfg) (req_device req) = Inr i"
    "session_for cfg req i t w = (w1, Inr ls)" "opened owner (cfg_MaxRequestSize cfg) req ls" "W owner w1"
    "exchange cfg t req i (start cfg req ls w1) = (e', Inr m)" "w' = world.truncate e'"
    "w_queue w1 = w_queue w" "w_hooks w1 = w_hooks w"
    by (rule handle_cases [OF assms(1-3)]) blast+
  let ?e0 = "start cfg req ls w1" and ?nk = "nonceKey (id_DeviceID i)"
  note f0 = start_frame [OF h(4,3), of ?nk]
  have tr: "trusted cfg t req w = (snd (authenticate cfg req i t ?e0) = Inr authTrusted)"
    by (simp add: trusted_def h(1,2))
  have init: "reply_cmds ?e0 = []" "e_ids ?e0 = 0" "\<not> b_Final (msg_Body (e_resp ?e0))" "\<not> ss_Closed (e_sess ?e0)"
    using h(3) by (simp_all add: start_fields NewResponse_def Let_def zero_body_def opened_def)
  obtain ea oc where auth: "authenticate cfg req i t ?e0 = (ea, Inr oc)" "oc \<noteq> authTrusted"
    using assms(4) authenticate_returns [of cfg req i t ?e0] by (metis tr snd_conv)
  have "(\<exists>resp oc ch. m = Some resp \<and> b_Commands (msg_Body resp) = [Status (challenge_status req oc 0 ch)])
    \<and> w_hooks w' = w_hooks w \<and> only_answered (view (w_queue w) d) (view (w_queue w') d)
    \<and> (\<exists>s. content (w_sessions w') (req_key req) = Some s \<and> \<not> ss_Authenticated s)"
  proof (cases rule: exchange_runs [OF h(5) f0 refl, case_names failed finished])
    case (failed e1 err)
    then show ?thesis by simp
  next
    case (finished er e1 e2 st ending hk)
    note u = respond_untrusted [OF auth finished(1)] and fl = flushResults_fields [OF finished(3)]
    have run: "e_resp e2 = e_resp e1" "w_hooks e2 = w_hooks e1" "w_queue e2 = w_queue e1"
      "ss_Authenticated (e_sess e2) = ss_Authenticated (e_sess e1)"
      unfolding finished(6) by simp_all
    have noend: "\<not> ending" using finished(7) fl u init by simp
    have c: "conclude cfg ending (e2\<lparr>w_sessions := st\<rparr>) = (e2\<lparr>w_sessions := st\<rparr>, Inr (Some (e_resp e2)))"
      using noend by (simp add: conclude_def aget_def)
    then have res: "e' = e2\<lparr>w_sessions := st\<rparr>" "m = Some (e_resp e2)" using finished(11) by simp_all
    have "inv (w_queue er)" using finished(2) by (simp add: frame_def)
    from flushResults_queue [OF this finished(3), of d]
    have "only_answered (view (w_queue w) d) (view (w_queue w') d)"
      unfolding h(6) res(1) using run u(1) h(7) by (simp add: start_fields)
    moreover have "w_hooks w' = w_hooks w"
      unfolding h(6) res(1) using run fl u h(8) by (simp add: start_fields)
    moreover have "content st (req_key req) = Some (e_sess e2)"
      using finished(8) noend h(3) by (simp add: start_fields opened_def)
    then have "content (w_sessions w') (req_key req) = Some (e_sess e2)"
      unfolding h(6) res(1) by simp
    moreover have "\<not> ss_Authenticated (e_sess e2)" using run(4) fl u(4) by simp
    moreover have "\<exists>ch. b_Commands (msg_Body (e_resp e2)) = [Status (challenge_status req oc 0 ch)]"
      using u(6) init fl(1) run(1) by auto
    ultimately show ?thesis using res(2) by blast
  qed
  then show "\<exists>resp oc ch. m = Some resp \<and> b_Commands (msg_Body resp) = [Status (challenge_status req oc 0 ch)]"
    and "w_hooks w' = w_hooks w" "only_answered (view (w_queue w) d) (view (w_queue w') d)"
    and "\<exists>s. content (w_sessions w') (req_key req) = Some s \<and> \<not> ss_Authenticated s" by blast+
qed

text \<open>A trusted request: the reply begins with the acknowledgements, numbered from 1.\<close>

lemma handle_trusted:
  assumes "handle_message cfg t req w = (w', Inr m)" "W owner w"
    and "\<And>i. au_Lookup (cfg_Auth cfg) (req_device req) = Inr i \<Longrightarrow> owner (id_EnrollmentKey i) = req_device req"
    and "trusted cfg t req w"
  obtains e2 ea resp rest where "says (req_msg req) [Status (StatusForHeader req ''1'' StatusOK)] e2"
    "w_hooks e2 = w_hooks w" "w_queue e2 = w_queue w" "ackAndFile cfg req e2 = (ea, Inr ())"
    "b_Commands (msg_Body resp) = reply_start req @ rest" "no_acks rest"
    "map cmd_ID (b_Commands (msg_Body resp)) = map (\<lambda>k. Itoa (int k)) [1..<Suc (length (b_Commands (msg_Body resp)))]"
    "h_MsgID (msg_Header resp) = Itoa (req_msg req)"
    "m = Some resp \<or> (m = None \<and> onlyHeaderStatus resp)"
    "ss_Closed (e_sess ea) \<Longrightarrow> rest = [] \<and> b_Final (msg_Body resp) \<and> content (w_sessions w') (req_key req) = None"
    "ss_unenroll (e_sess ea) \<Longrightarrow> cfg_Hooks cfg \<noteq> None \<Longrightarrow> \<exists>l. w_hooks w' = l @ [Unenrolled (req_device req)]"
proof -
  obtain i w1 ls e' where h: "au_Lookup (cfg_Auth cfg) (req_device req) = Inr i"
    "session_for cfg req i t w = (w1, Inr ls)" "opened owner (cfg_MaxRequestSize cfg) req ls" "W owner w1"
    "exchange cfg t req i (start cfg req ls w1) = (e', Inr m)" "w' = world.truncate e'"
    "w_queue w1 = w_queue w" "w_hooks w1 = w_hooks w"
    by (rule handle_cases [OF assms(1-3)]) blast+
  let ?e0 = "start cfg req ls w1" and ?nk = "nonceKey (id_DeviceID i)"
  note f0 = start_frame [OF h(4,3), of ?nk]
  have tr: "trusted cfg t req w = (snd (authenticate cfg req i t ?e0) = Inr authTrusted)"
    by (simp add: trusted_def h(1,2))
  have init: "says (req_msg req) [] ?e0" "h_MsgID (msg_Header (e_resp ?e0)) = Itoa (req_msg req)"
    using h(3) by (simp_all add: says_def start_fields opened_def)
  obtain ex where auth: "authenticate cfg req i t ?e0 = (ex, Inr authTrusted)"
    using assms(4) tr by (metis prod.collapse)
  show thesis
  proof (cases rule: exchange_runs [OF h(5) f0 refl, case_names failed finished])
    case (failed e1 err)
    then show thesis by simp
  next
    case (finished er e1 e2 st ending hk)
    obtain eh ea where r: "says (req_msg req) [Status (StatusForHeader req ''1'' StatusOK)] eh"
      "w_hooks eh = w_hooks ?e0" "w_queue eh = w_queue ?e0" "ackAndFile cfg req eh = (ea, Inr ())"
      "says (req_msg req) (reply_start req) ea" "F ?nk ?e0 ea"
      "if ss_Closed (e_sess ea) then er = ea\<lparr>e_resp := set_final True (e_resp ea)\<rparr> else extends (reply_start req) er"
      by (rule respond_trusted [OF f0 auth finished(1) init(1)]) blast+
    note fl = flushResults_fields [OF finished(3)]
    have resp: "e_resp e2 = e_resp er" unfolding finished(6) using fl(1) by simp
    obtain rest where rest: "reply_cmds er = reply_start req @ rest" "no_acks rest" "ss_Closed (e_sess ea) \<longrightarrow> rest = []"
      using r(5,7) by (cases "ss_Closed (e_sess ea)") (auto simp: says_def extends_def no_acks_def)
    have closed: "b_Final (msg_Body (e_resp er)) \<and> content (w_sessions w') (req_key req) = None" if "ss_Closed (e_sess ea)"
    proof -
      have er: "er = ea\<lparr>e_resp := set_final True (e_resp ea)\<rparr>" using r(7) that by simp
      have "ss_Closed (e_sess er)" "b_Final (msg_Body (e_resp er))" unfolding er using that by simp_all
      moreover from this have ending using finished(7) fl(3) by simp
      then have "content st (req_key req) = None" using finished(8) h(3) by (simp add: start_fields opened_def)
      moreover have "w_sessions e' = st" unfolding finished(10) by simp
      ultimately show ?thesis unfolding h(6) by simp
    qed
    have ids: "map cmd_ID (reply_cmds er) = map (\<lambda>k. Itoa (int k)) [1..<Suc (length (reply_cmds er))]"
    proof -
      have n: "map cmd_ID (reply_cmds er) = map (\<lambda>k. Itoa (int k)) [1..<Suc (e_ids er)]"
        using finished(2) by (simp add: frame_def reply_ids_def)
      from arg_cong [OF this, of length] have "length (reply_cmds er) = e_ids er" by simp
      then show ?thesis using n by simp
    qed
    have hdr: "h_MsgID (msg_Header (e_resp er)) = Itoa (req_msg req)"
      using finished(2) init(2) by (simp add: frame_def)
    have "m = Some (e_resp er) \<or> (m = None \<and> onlyHeaderStatus (e_resp er))"
      using finished(10,11) resp unfolding conclude_def
      by (auto simp: aget_def abind_def call_hook_def split: prod.splits sum.splits if_splits option.splits)
    moreover have "\<exists>l. w_hooks w' = l @ [Unenrolled (req_device req)]" if u: "ss_unenroll (e_sess ea)" "cfg_Hooks cfg \<noteq> None"
    proof -
      have c: "ss_Closed (e_sess ea)" using r(6) u(1) by (simp add: frame_def sess_ok_def)
      have er: "er = ea\<lparr>e_resp := set_final True (e_resp ea)\<rparr>" using r(7) c by simp
      have "ss_unenroll (e_sess er)" "ss_Closed (e_sess er)" unfolding er using u c by simp_all
      then have e: "ending" "ss_unenroll (e_sess e1)" using finished(7) fl(3,5) by simp_all
      have d: "ss_DeviceID (e_sess e1) = req_device req"
        using finished(4) h(3) by (simp add: frame_def same_id_def start_fields opened_def)
      have "w_hooks e' = w_hooks e2 @ [Unenrolled (req_device req)]"
        using arg_cong [OF finished(11), of "\<lambda>x. w_hooks (fst x)"] e d u(2) unfolding conclude_def finished(6)
        by (auto simp: aget_def abind_def call_hook_def split: sum.splits option.splits)
      then show ?thesis unfolding h(6) by simp
    qed
    ultimately show thesis
      using that [OF r(1) _ _ r(4) rest(1,2) ids hdr] r(2,3) h(7,8) rest(3) closed by (simp add: start_fields)
  qed
qed

text \<open>The session a handled request leaves in the store has taken its number and its owner.\<close>

lemma handle_stored:
  assumes "handle_message cfg t req w = (w', Inr m)" "W owner w"
    and "\<And>i. au_Lookup (cfg_Auth cfg) (req_device req) = Inr i \<Longrightarrow> owner (id_EnrollmentKey i) = req_device req"
    and "content (w_sessions w') (req_key req) = Some s"
  obtains i where "Validate req = []" "au_Lookup (cfg_Auth cfg) (req_device req) = Inr i"
    "ss_EnrollmentKey s = id_EnrollmentKey i" "ss_ClientMsgID s = req_msg req"
proof -
  obtain i w1 ls e' where h: "Validate req = []" "au_Lookup (cfg_Auth cfg) (req_device req) = Inr i"
    "session_for cfg req i t w = (w1, Inr ls)" "opened owner (cfg_MaxRequestSize cfg) req ls" "W owner w1"
    "exchange cfg t req i (start cfg req ls w1) = (e', Inr m)" "w' = world.truncate e'"
    by (rule handle_cases [OF assms(1-3)]) blast+
  have key: "ss_EnrollmentKey (snd ls) = id_EnrollmentKey i"
    by (cases rule: session_for_cases [OF h(3), case_names refused fresh continued]) auto
  note f0 = start_frame [OF h(5,4), of "nonceKey (id_DeviceID i)"]
  show thesis
  proof (cases rule: exchange_runs [OF h(6) f0 refl, case_names failed finished])
    case (failed e1 err)
    then show thesis by simp
  next
    case (finished er e1 e2 st ending hk)
    have "w_sessions e' = st" unfolding finished(10) by simp
    then have "content st (req_key req) = Some s" using assms(4) unfolding h(7) by simp
    then have "s = e_sess e2"
      using finished(8) h(4) by (simp add: start_fields opened_def split: if_splits)
    moreover have "same_id (snd ls) (e_sess e2)" using finished(5) by (simp add: frame_def start_fields)
    ultimately show thesis
      using that [OF h(1,2)] key h(4) by (simp add: same_id_def opened_def)
  qed
qed

end

end
