(* ===== verification/Mdm_Inmem.thy ===== *)
theory Mdm_Inmem
  imports Mdm_Replies
begin

text \<open>
  The service over the in-memory queue and session store: the state machine of requests and
  administrative operations, and what the engine's lemmas say about it.
\<close>

section \<open>The running service\<close>

definition inmem :: "(queue, memory_sessions) config \<Rightarrow> (queue, memory_sessions) config" where
  "inmem cfg = cfg\<lparr>cfg_Queue := inmem_queue, cfg_Sessions := inmem_sessions\<rparr>"

lemma inmem_fields [simp]:
  "cfg_Queue (inmem cfg) = inmem_queue" "cfg_Sessions (inmem cfg) = inmem_sessions"
  "cfg_Auth (inmem cfg) = cfg_Auth cfg" "cfg_Hooks (inmem cfg) = cfg_Hooks cfg"
  "cfg_MaxRequestSize (inmem cfg) = cfg_MaxRequestSize cfg" "cfg_Clock (inmem cfg) = cfg_Clock cfg"
  "cfg_MaxMessageBytes (inmem cfg) = cfg_MaxMessageBytes cfg"
  by (simp_all add: inmem_def)

abbreviation stored :: "memory_sessions \<Rightarrow> string \<rightharpoonup> session" where
  "stored m \<equiv> map_of (ms_sessions m)"

interpretation im: mdm_engine inmem_queue queue_inv dev_cmds inmem_sessions stored ms_stale "inmem c" for c
  by unfold_locales simp_all

text \<open>The enrollment keys of an authenticator belong to one device each, the one it looks up.\<close>

definition keys_owned :: "(string \<Rightarrow> string) \<Rightarrow> authenticator \<Rightarrow> bool" where
  "keys_owned owner au = (\<forall>d i. au_Lookup au d = Inr i \<longrightarrow> owner (id_EnrollmentKey i) = d)"

definition boot_world :: "(queue, memory_sessions) world" where
  "boot_world = \<lparr>w_queue = NewQueue, w_sessions = NewMemorySessions, w_nonces = [], w_hooks = [], w_ticks = 0\<rparr>"

inductive served :: "(string \<Rightarrow> string) \<Rightarrow> int \<Rightarrow> (queue, memory_sessions) world \<Rightarrow> bool"
  for owner :: "string \<Rightarrow> string" and N :: int where
  boot: "served owner N boot_world"
| request: "served owner N w \<Longrightarrow> cfg_MaxRequestSize cfg = N \<Longrightarrow> keys_owned owner (cfg_Auth cfg) \<Longrightarrow>
     served owner N (fst (handle_message (inmem cfg) t req w))"
| admin: "served owner N w \<Longrightarrow> served owner N (w\<lparr>w_queue := qstep op (w_queue w)\<rparr>)"

abbreviation service_inv :: "(string \<Rightarrow> string) \<Rightarrow> int \<Rightarrow> (queue, memory_sessions) world \<Rightarrow> bool" where
  "service_inv owner \<equiv> world_inv owner queue_inv stored"

lemma served_inv: "served owner N w \<Longrightarrow> service_inv owner N w"
proof (induction rule: served.induct)
  case boot
  then show ?case by (simp add: world_inv_def boot_world_def NewMemorySessions_def records_inv_def)
next
  case (request w cfg t req)
  obtain w' r where h: "handle_message (inmem cfg) t req w = (w', r)" by fastforce
  show ?case
    using im.handle_keeps(1) [OF _ h, of owner] request.IH request.hyps(2,3) by (simp add: h keys_owned_def)
next
  case (admin w op)
  then show ?case by (simp add: world_inv_def qstep_inv)
qed

lemma wrap64_next: "n \<noteq> wrap64 (n + 1)"
proof
  assume eq: "n = wrap64 (n + 1)"
  define m :: int where "m = n + 2 ^ 63"
  have "wrap64 (n + 1) = (m + 1) mod 2 ^ 64 - 2 ^ 63" by (simp add: wrap64_def m_def add.commute add.left_commute)
  then have m: "m = (m + 1) mod 2 ^ 64" using eq unfolding m_def by linarith
  then have "m < 2 ^ 64" using pos_mod_bound [of "2 ^ 64" "m + 1"] by simp
  moreover have "0 \<le> m" using m pos_mod_sign [of "2 ^ 64" "m + 1"] by simp
  ultimately consider "m + 1 < 2 ^ 64" | "m + 1 = 2 ^ 64" by linarith
  then show False using m \<open>0 \<le> m\<close> by cases (simp_all add: mod_pos_pos_trivial)
qed

text \<open>A message that does not carry the next number of a live session is refused without effect.\<close>

lemma wrong_number_refused:
  assumes "Validate req = []" "au_Lookup (cfg_Auth cfg) (req_device req) = Inr i"
    and "stored (w_sessions w) (req_key req) = Some s" "ss_EnrollmentKey s = id_EnrollmentKey i"
    and "\<not> ms_stale (w_sessions w) (cfg_Clock cfg (w_ticks w)) s" "req_msg req \<noteq> wrap64 (ss_ClientMsgID s + 1)"
  shows "handle_message (inmem cfg) t req w = (w\<lparr>w_ticks := w_ticks w + 3\<rparr>, Inl [Syncml_ErrInvalid])"
proof -
  have "GetSession (w_sessions w) (cfg_Clock cfg (w_ticks w)) (req_key req) = (w_sessions w, Inr s)"
    using assms(3,5) by (simp add: GetSession_def ms_stale_def)
  then have "session_for (inmem cfg) req i t w = (w\<lparr>w_ticks := w_ticks w + 3\<rparr>, Inl [Syncml_ErrInvalid])"
    using assms(4,6)
    by (simp add: session_for_def inmem_sessions_def req_key_def req_device_def req_msg_def Let_def)
  then show ?thesis
    using assms(1,2) by (simp add: handle_message_def req_device_def)
qed

section \<open>A sample session\<close>

definition sample_auth :: authenticator where
  "sample_auth = \<lparr>au_Lookup = (\<lambda>d. Inr \<lparr>id_DeviceID = d, id_EnrollmentKey = d, id_CertificateThumbprint = [],
       id_AuthType = AuthCertificate, id_CredentialHash = []\<rparr>),
     au_TrustCertificate = (\<lambda>i chains. True)\<rparr>"

definition sample_cfg :: "(queue, memory_sessions) config" where
  "sample_cfg = \<lparr>cfg_ServerURL = ''https://m'', cfg_Auth = sample_auth, cfg_Queue = inmem_queue,
     cfg_Sessions = inmem_sessions, cfg_Hooks = Some (\<lambda>log call. None), cfg_Clock = int, cfg_Ctx = (\<lambda>_. None),
     cfg_Rand = (\<lambda>_ n. Some (replicate n CHR ''r'')), cfg_Crypto = sample_crypto, cfg_MaxRequestSize = 1000,
     cfg_NonceTTL = 600, cfg_MaxMessageBytes = 4096, cfg_AllowBasic = False, cfg_ProviderID = []\<rparr>"

definition sample_tls :: "transport option" where
  "sample_tls = Some (zero_transport\<lparr>t_Certificates := [Some \<lparr>ct_Raw = ''c'', ct_SerialNumber = None\<rparr>],
     t_VerifiedChains := [[Some \<lparr>ct_Raw = ''c'', ct_SerialNumber = None\<rparr>]]\<rparr>)"

definition sample_request :: "string \<Rightarrow> command list \<Rightarrow> message" where
  "sample_request n cs = \<lparr>msg_Namespace = NamespaceSyncML12,
     msg_Header = zero_header\<lparr>h_VerDTD := VerDTD, h_VerProto := VerProto, h_SessionID := ''7'', h_MsgID := n,
       h_Target := zero_location\<lparr>l_LocURI := ''https://m''\<rparr>, h_Source := zero_location\<lparr>l_LocURI := ''dev''\<rparr>\<rparr>,
     msg_Body = zero_body\<lparr>b_Commands := cs, b_Final := True\<rparr>\<rparr>"

text \<open>A session after its first message, in which one queued command was sent as command 4 of message 1.\<close>

definition sample_session :: session where
  "sample_session = zero_session\<lparr>ss_Key := SessionKey ''dev'' ''7'', ss_DeviceID := ''dev'', ss_SessionID := ''7'',
     ss_EnrollmentKey := ''dev'', ss_Namespace := NamespaceSyncML12, ss_ClientMsgID := 1, ss_ServerMsgID := 1,
     ss_gotPackageOne := True, ss_Sent := [(''1/4'', ''cmd-1'')]\<rparr>"

definition sample_queue :: queue where
  "sample_queue = qstep (OpMarkSent ''dev'' [\<lparr>dl_CommandID = ''cmd-1'', dl_MsgID = ''1'', dl_At = 5\<rparr>])
     (qstep (OpEnqueue ''dev'' (Some sample_replace) 5) NewQueue)"

definition sample_world :: "(queue, memory_sessions) world" where
  "sample_world = boot_world\<lparr>w_queue := sample_queue, w_sessions := fst (PutSession NewMemorySessions sample_session)\<rparr>"

text \<open>The second message: the device acknowledges the header and the command and reports an alert.\<close>

definition sample_msg2 :: message where
  "sample_msg2 = sample_request ''2''
     [Status (zero_status\<lparr>s_CmdID := ''1'', s_MsgRef := ''1'', s_CmdRef := ''0'', s_Cmd := CmdSyncHdr, s_Data := data_value ''200''\<rparr>),
      Status (zero_status\<lparr>s_CmdID := ''2'', s_MsgRef := ''1'', s_CmdRef := ''4'', s_Cmd := CmdReplace, s_Data := data_value ''200''\<rparr>),
      Alert (zero_alert\<lparr>a_CmdID := ''3'', a_Data := ''1222''\<rparr>)]"

lemma sample_inv: "service_inv id 1000 sample_world"
  by (simp add: world_inv_def sample_world_def boot_world_def sample_queue_def qstep_inv records_inv_def
      PutSession_def NewMemorySessions_def stored_ok_def sample_session_def zero_session_def sess_ok_def
      in_int64_def del: qstep.simps)

lemma sample_owned: "keys_owned id (cfg_Auth sample_cfg)"
  by (simp add: keys_owned_def sample_cfg_def sample_auth_def)

lemma sample_size: "cfg_MaxRequestSize sample_cfg = 1000"
  by (simp add: sample_cfg_def)

lemma sample_valid: "Validate sample_msg2 = []"
  by code_simp

lemma sample_handled: "isl (snd (handle_message (inmem sample_cfg) sample_tls sample_msg2 sample_world)) = False"
  by code_simp

lemma sample_trusted: "trusted (inmem sample_cfg) sample_tls sample_msg2 sample_world"
  by code_simp

lemma sample_untrusted: "\<not> trusted (inmem sample_cfg) None sample_msg2 sample_world"
  by code_simp

lemma sample_challenged: "isl (snd (handle_message (inmem sample_cfg) None sample_msg2 sample_world)) = False"
  by code_simp

section \<open>Properties\<close>



text \<open>
  C8. What holds of every session the running service has in its store, after any sequence of
  requests of any devices and of operations on the queue: it is stored under its own key and its
  owner's enrollment key, it is open, the two message counters agree, an object under assembly
  holds no more bytes than the request limit, and the queue is well formed.
\<close>

theorem served_sessions:
  assumes "served owner N w" "stored (w_sessions w) k = Some s"
  shows "k = SessionKey (ss_DeviceID s) (ss_SessionID s) \<and> owner (ss_EnrollmentKey s) = ss_DeviceID s
    \<and> \<not> ss_Closed s \<and> ss_ServerMsgID s = ss_ClientMsgID s \<and> queue_inv (w_queue w)
    \<and> (case ss_Assembler s of None \<Rightarrow> True | Some a \<Rightarrow> 0 < N \<longrightarrow> int (length (as_buf a)) \<le> N)"
proof -
  have "stored_ok owner N k s" "queue_inv (w_queue w)"
    using served_inv [OF assms(1)] assms(2) by (simp_all add: world_inv_def)
  then show ?thesis
    by (auto simp: stored_ok_def sess_ok_def assembler_inv_def as_limit_def split: option.split)
qed

definition sample_pkg1 :: message where
  "sample_pkg1 = sample_request ''1''
     [Alert (zero_alert\<lparr>a_CmdID := ''2'', a_Data := ''1201''\<rparr>),
      Replace (zero_cmd\<lparr>c_CmdID := ''3'', c_Items := [zero_item\<lparr>it_Source := ''./DevInfo/DevId'', it_Data := Some (data_value ''dev'')\<rparr>]\<rparr>)]"

theorem served_sessions_witness:
  "\<exists>s. stored (w_sessions (fst (handle_message (inmem sample_cfg) sample_tls sample_pkg1 boot_world))) ''dev/7'' = Some s
     \<and> ss_ServerMsgID s = ss_ClientMsgID s"
proof -
  let ?w = "fst (handle_message (inmem sample_cfg) sample_tls sample_pkg1 boot_world)"
  have "served id 1000 ?w"
    by (rule served.request [OF served.boot sample_size sample_owned])
  moreover have "Option.is_none (stored (w_sessions ?w) ''dev/7'') = False" by code_simp
  then obtain s where "stored (w_sessions ?w) ''dev/7'' = Some s" by (cases "stored (w_sessions ?w) ''dev/7''") simp_all
  ultimately show ?thesis
    using served_sessions [of id 1000 ?w "''dev/7''"] by simp
qed

text \<open>
  C3. A request whose sender is not authenticated is answered with exactly one status on the header
  that carries a challenge. No hook runs, nothing is enqueued or delivered, the only entries of
  the queue that may change are those an earlier, trusted message answered, and the session is
  stored as not authenticated.
\<close>

theorem untrusted_challenged:
  assumes "service_inv owner (cfg_MaxRequestSize cfg) w" "keys_owned owner (cfg_Auth cfg)"
    and "handle_message (inmem cfg) t req w = (w', Inr m)" "\<not> trusted (inmem cfg) t req w"
  shows "(\<exists>resp oc ch. m = Some resp \<and> b_Commands (msg_Body resp) = [Status (challenge_status req oc 0 ch)])
    \<and> w_hooks w' = w_hooks w \<and> (\<forall>d. only_answered (dev_cmds (w_queue w) d) (dev_cmds (w_queue w') d))
    \<and> (\<exists>s. stored (w_sessions w') (req_key req) = Some s \<and> \<not> ss_Authenticated s)"
  using im.handle_untrusted [OF assms(3), of owner] assms(1,2,4) by (auto simp: keys_owned_def)

theorem untrusted_challenged_witness:
  "w_hooks (fst (handle_message (inmem sample_cfg) None sample_msg2 sample_world)) = []"
proof -
  obtain w' m where "handle_message (inmem sample_cfg) None sample_msg2 sample_world = (w', Inr m)"
    using sample_challenged by (metis isl_def prod.collapse sum.collapse(2))
  with untrusted_challenged [OF _ sample_owned this sample_untrusted] show ?thesis
    using sample_inv by (simp add: sample_size sample_world_def boot_world_def)
qed





text \<open>
  C17. A request that aborts the session, or reports the unenrollment of the device to the hooks, gets
  the acknowledgements and nothing else, in a final message, and its session is gone afterwards.
\<close>

theorem closing_request:
  assumes "service_inv owner (cfg_MaxRequestSize cfg) w" "keys_owned owner (cfg_Auth cfg)"
    and "handle_message (inmem cfg) t req w = (w', Inr m)" "trusted (inmem cfg) t req w"
    and "Alert a \<in> set (b_Commands (msg_Body req))" "closing_alert cfg a"
  shows "stored (w_sessions w') (req_key req) = None
    \<and> (\<exists>resp. m = Some resp \<and> b_Commands (msg_Body resp) = reply_start req \<and> b_Final (msg_Body resp))"
proof -
  obtain ea e2 resp rest where r: "ackAndFile (inmem cfg) req e2 = (ea, Inr ())"
    "b_Commands (msg_Body resp) = reply_start req @ rest" "m = Some resp \<or> (m = None \<and> onlyHeaderStatus resp)"
    "ss_Closed (e_sess ea) \<Longrightarrow> rest = [] \<and> b_Final (msg_Body resp) \<and> stored (w_sessions w') (req_key req) = None"
    using im.handle_trusted [OF assms(3), of owner] assms(1,2,4) unfolding keys_owned_def inmem_fields by metis
  have "closing_alert (inmem cfg) a" using assms(6) by (simp add: closing_alert_def unenroll_alert_def)
  from ackAndFile_sets [OF assms(5) r(1) _ closing_alert_closes [OF this]]
  have c: "ss_Closed (e_sess ea)" by (simp add: sticky_def)
  have "acks req k cs \<noteq> []" if "Alert a \<in> set cs" for k cs
    using that by (induction cs arbitrary: k) (auto split: command.split)
  then have "\<not> onlyHeaderStatus resp"
    using r(2) assms(5) by (auto simp: onlyHeaderStatus_def reply_start_def split: list.splits)
  then show ?thesis using r(2-4) c by auto
qed

definition sample_abort :: message where
  "sample_abort = sample_request ''2''
     [Status (zero_status\<lparr>s_CmdID := ''1'', s_MsgRef := ''1'', s_CmdRef := ''0'', s_Cmd := CmdSyncHdr, s_Data := data_value ''200''\<rparr>),
      Alert (zero_alert\<lparr>a_CmdID := ''2'', a_Data := ''1223''\<rparr>)]"

theorem closing_request_witness:
  "stored (w_sessions (fst (handle_message (inmem sample_cfg) sample_tls sample_abort sample_world))) ''dev/7'' = None"
proof -
  have "isl (snd (handle_message (inmem sample_cfg) sample_tls sample_abort sample_world)) = False" by code_simp
  then obtain w' m where h: "handle_message (inmem sample_cfg) sample_tls sample_abort sample_world = (w', Inr m)"
    by (metis isl_def prod.collapse sum.collapse(2))
  have "trusted (inmem sample_cfg) sample_tls sample_abort sample_world" by code_simp
  moreover have "closing_alert sample_cfg (zero_alert\<lparr>a_CmdID := ''2'', a_Data := ''1223''\<rparr>)" by code_simp
  moreover have "req_key sample_abort = ''dev/7''" by code_simp
  ultimately show ?thesis
    using closing_request [OF _ sample_owned h, of] sample_inv h
    by (auto simp: sample_size sample_abort_def sample_request_def)
qed

text \<open>
  C20. A device that reports its unenrollment is reported to the hooks: the last call the request
  makes says that the device is unenrolled.
\<close>

theorem unenroll_reported:
  assumes "service_inv owner (cfg_MaxRequestSize cfg) w" "keys_owned owner (cfg_Auth cfg)"
    and "handle_message (inmem cfg) t req w = (w', Inr m)" "trusted (inmem cfg) t req w"
    and "Alert a \<in> set (b_Commands (msg_Body req))" "unenroll_alert cfg a"
  shows "\<exists>l. w_hooks w' = l @ [Unenrolled (req_device req)]"
proof -
  obtain ea e2 where r: "ackAndFile (inmem cfg) req e2 = (ea, Inr ())"
    "ss_unenroll (e_sess ea) \<Longrightarrow> cfg_Hooks cfg \<noteq> None \<Longrightarrow> \<exists>l. w_hooks w' = l @ [Unenrolled (req_device req)]"
    using im.handle_trusted [OF assms(3), of owner] assms(1,2,4) unfolding keys_owned_def inmem_fields by metis
  have "unenroll_alert (inmem cfg) a" using assms(6) by (simp add: unenroll_alert_def)
  from ackAndFile_sets [OF assms(5) r(1) _ unenroll_alert_sets [OF this, of ss_unenroll]]
  have "ss_unenroll (e_sess ea)" by (simp add: sticky_def)
  then show ?thesis using r(2) assms(6) by (simp add: unenroll_alert_def)
qed

definition sample_unenroll :: alert where
  "sample_unenroll = zero_alert\<lparr>a_CmdID := ''2'', a_Data := ''1226'',
     a_Items := [zero_item\<lparr>it_Meta := Some (zero_meta\<lparr>m_Type := AlertTypeUnenrollmentUserRequest\<rparr>), it_Data := Some (data_value ''1'')\<rparr>]\<rparr>"

theorem unenroll_reported_witness:
  "\<exists>l. w_hooks (fst (handle_message (inmem sample_cfg) sample_tls (sample_request ''2'' [Alert sample_unenroll]) sample_world))
     = l @ [Unenrolled ''dev'']"
proof -
  let ?req = "sample_request ''2'' [Alert sample_unenroll]"
  have "isl (snd (handle_message (inmem sample_cfg) sample_tls ?req sample_world)) = False" by code_simp
  then obtain w' m where h: "handle_message (inmem sample_cfg) sample_tls ?req sample_world = (w', Inr m)"
    by (metis isl_def prod.collapse sum.collapse(2))
  have "trusted (inmem sample_cfg) sample_tls ?req sample_world" by code_simp
  moreover have "unenroll_alert sample_cfg sample_unenroll" by code_simp
  moreover have "req_device ?req = ''dev''" by code_simp
  ultimately show ?thesis
    using unenroll_reported [OF _ sample_owned h, of sample_unenroll] sample_inv h
    by (simp add: sample_size sample_request_def)
qed




end
