(* ===== verification/Enrollment_Store.thy ===== *)
theory Enrollment_Store
  imports Mdm_Auth Mdm_Command Paging "HOL-Library.Product_Lexorder"
begin

text \<open>
  Enrollments, certificates and session credentials: the types of \<open>storage/storage.go\<close>, the
  in-memory store \<open>storage/inmem/inmem.go\<close> and \<open>credential.go\<close>, the recorder \<open>storage/recorder.go\<close> and the
  authenticator over the store, \<open>storage/mdmauth.go\<close>.

  The store keeps enrollments by serial and two indexes over them. It is shown to behave like one
  table in which a device has at most one active enrollment.
\<close>

section \<open>Records\<close>

definition StateActive :: string where "StateActive = ''active''"
definition StateSuperseded :: string where "StateSuperseded = ''superseded''"
definition StateUnenrolled :: string where "StateUnenrolled = ''unenrolled''"

lemmas enrollment_states = StateActive_def StateSuperseded_def StateUnenrolled_def

definition state_Valid :: "string \<Rightarrow> bool" where
  "state_Valid s = (s = StateActive \<or> s = StateSuperseded \<or> s = StateUnenrolled)"

definition EnrollmentTypeFull :: string where "EnrollmentTypeFull = ''Full''"
definition EnrollmentTypeDevice :: string where "EnrollmentTypeDevice = ''Device''"

definition type_Valid :: "string \<Rightarrow> bool" where
  "type_Valid e = (e = EnrollmentTypeFull \<or> e = EnrollmentTypeDevice)"

text \<open>\<open>AdditionalContext\<close>: the fields the storage tier reads, and the others by name.\<close>

record additional_context =
  cx_DeviceID :: string
  cx_HWDevID :: string
  cx_EnrollmentType :: string
  cx_others :: "(string \<times> string) list"

record enrollment =
  en_Serial :: string
  en_Thumbprint :: string
  en_DeviceID :: string
  en_HWDevID :: string
  en_EnrollmentType :: string
  en_UPN :: string
  en_Context :: additional_context
  en_State :: string
  en_EnrolledAt :: time
  en_UpdatedAt :: time
  en_LastSeenAt :: time

definition enrollment_Validate :: "enrollment option \<Rightarrow> unit result" where
  "enrollment_Validate eo =
     (case eo of
        None \<Rightarrow> Inl [Plain ''storage: nil enrollment'']
      | Some e \<Rightarrow>
          if en_Serial e = [] then Inl [Plain ''storage: enrollment needs a certificate serial'']
          else if en_Thumbprint e = [] then Inl [Plain ''storage: enrollment needs a certificate thumbprint'']
          else if en_DeviceID e = [] then Inl [Plain ''storage: enrollment needs a DeviceID'']
          else if \<not> type_Valid (en_EnrollmentType e) then Inl [Plain ''storage: enrollment type must be Full or Device'']
          else if IsZero (en_EnrolledAt e) then Inl [Plain ''storage: enrollment needs EnrolledAt'']
          else Inr ())"

record certificate =
  ce_Serial :: string
  ce_Thumbprint :: string
  ce_Subject :: string
  ce_DeviceID :: string
  ce_NotBefore :: time
  ce_NotAfter :: time
  ce_Raw :: string
  ce_Revoked :: bool
  ce_RevokedAt :: time

definition certificate_Validate :: "certificate option \<Rightarrow> unit result" where
  "certificate_Validate co =
     (case co of
        None \<Rightarrow> Inl [Plain ''storage: nil certificate'']
      | Some c \<Rightarrow>
          if ce_Serial c = [] then Inl [Plain ''storage: certificate needs a serial'']
          else if ce_Thumbprint c = [] then Inl [Plain ''storage: certificate needs a thumbprint'']
          else if ce_Raw c = [] then Inl [Plain ''storage: certificate needs its DER encoding'']
          else if IsZero (ce_NotBefore c) \<or> IsZero (ce_NotAfter c) \<or> ce_NotAfter c \<le> ce_NotBefore c
            then Inl [Plain ''storage: certificate needs a validity period'']
          else Inr ())"

record enrollment_query =
  eq_State :: string
  eq_EnrollmentType :: string
  eq_UPN :: string
  eq_DeviceID :: string

record certificate_query =
  cq_DeviceID :: string
  cq_Revoked :: "bool option"
  cq_ExpiresBefore :: time

record mdm_credential =
  cd_DeviceID :: string
  cd_AuthType :: string
  cd_CredentialHash :: string

section \<open>The in-memory store\<close>

record estore =
  es_enrollments :: "(string \<times> enrollment) list"
  es_active :: "(string \<times> string) list"
  es_byThumb :: "(string \<times> string) list"
  es_certs :: "(string \<times> certificate) list"
  es_certThumb :: "(string \<times> string) list"
  es_creds :: "(string \<times> mdm_credential) list"

definition NewStore :: estore where
  "NewStore = \<lparr>es_enrollments = [], es_active = [], es_byThumb = [], es_certs = [], es_certThumb = [], es_creds = []\<rparr>"

text \<open>The active enrollment of a device makes way for another. The serial is that of a stored
  enrollment (\<open>estore_inv\<close>), so the pointer the code writes through is never nil.\<close>

definition superseded :: "time \<Rightarrow> enrollment \<Rightarrow> enrollment" where
  "superseded at e = e\<lparr>en_State := StateSuperseded, en_UpdatedAt := at\<rparr>"

definition Create :: "estore \<Rightarrow> enrollment option \<Rightarrow> estore \<times> unit result" where
  "Create s eo =
     (case enrollment_Validate eo of
        Inl err \<Rightarrow> (s, Inl (Storage_ErrInvalid # err))
      | Inr _ \<Rightarrow>
          let e = the eo
          in if map_of (es_enrollments s) (en_Serial e) \<noteq> None then (s, Inl [Storage_ErrConflict])
             else if map_of (es_byThumb s) (en_Thumbprint e) \<noteq> None then (s, Inl [Storage_ErrConflict])
             else
               let rec' = e\<lparr>en_State := StateActive, en_UpdatedAt := en_EnrolledAt e\<rparr>;
                   s1 = (case map_of (es_active s) (en_DeviceID e) of
                           None \<Rightarrow> s
                         | Some prev \<Rightarrow> s\<lparr>es_enrollments :=
                             AList.map_entry prev (superseded (en_EnrolledAt e)) (es_enrollments s)\<rparr>)
               in (s1\<lparr>es_enrollments := AList.update (en_Serial e) rec' (es_enrollments s1),
                      es_active := AList.update (en_DeviceID e) (en_Serial e) (es_active s1),
                      es_byThumb := AList.update (en_Thumbprint e) (en_Serial e) (es_byThumb s1)\<rparr>, Inr ()))"

text \<open>\<open>copyEnrollment\<close> of a stored pointer.\<close>

definition stored_enrollment :: "estore \<Rightarrow> string option \<Rightarrow> enrollment result" where
  "stored_enrollment s serial =
     (case serial of None \<Rightarrow> Inl [Storage_ErrNotFound]
      | Some k \<Rightarrow> (case map_of (es_enrollments s) k of None \<Rightarrow> Inl [Storage_ErrNotFound] | Some e \<Rightarrow> Inr e))"

definition Get_enrollment :: "estore \<Rightarrow> string \<Rightarrow> enrollment result" where
  "Get_enrollment s deviceID = stored_enrollment s (map_of (es_active s) deviceID)"

definition GetBySerial :: "estore \<Rightarrow> string \<Rightarrow> enrollment result" where
  "GetBySerial s serial = stored_enrollment s (Some serial)"

definition GetByThumbprint :: "estore \<Rightarrow> string \<Rightarrow> enrollment result" where
  "GetByThumbprint s thumbprint = stored_enrollment s (map_of (es_byThumb s) thumbprint)"

definition sortEnrollments :: "enrollment list \<Rightarrow> enrollment list" where
  "sortEnrollments es = sort_key (\<lambda>e. (en_EnrolledAt e, en_Serial e)) es"

definition ListByHWDevID :: "estore \<Rightarrow> string \<Rightarrow> enrollment list result" where
  "ListByHWDevID s hwDevID =
     (if hwDevID = [] then Inl [Storage_ErrInvalid]
      else Inr (sortEnrollments (filter (\<lambda>e. en_HWDevID e = hwDevID) (map snd (es_enrollments s)))))"

definition SetState :: "estore \<Rightarrow> string \<Rightarrow> string \<Rightarrow> time \<Rightarrow> estore \<times> unit result" where
  "SetState s serial st at =
     (if \<not> state_Valid st then (s, Inl [Storage_ErrInvalid])
      else case map_of (es_enrollments s) serial of
          None \<Rightarrow> (s, Inl [Storage_ErrNotFound])
        | Some e \<Rightarrow>
            let s1 = s\<lparr>es_enrollments := AList.map_entry serial
                       (\<lambda>e. e\<lparr>en_State := st, en_UpdatedAt := at\<rparr>) (es_enrollments s)\<rparr>;
                s2 = (if st \<noteq> StateActive \<and> map_of (es_active s1) (en_DeviceID e) = Some serial
                      then s1\<lparr>es_active := AList.delete (en_DeviceID e) (es_active s1)\<rparr> else s1)
            in if st \<noteq> StateActive then (s2, Inr ())
               else
                 let s3 = (case map_of (es_active s2) (en_DeviceID e) of
                             None \<Rightarrow> s2
                           | Some prev \<Rightarrow>
                               if prev \<noteq> serial
                               then s2\<lparr>es_enrollments := AList.map_entry prev (superseded at) (es_enrollments s2)\<rparr>
                               else s2)
                 in (s3\<lparr>es_active := AList.update (en_DeviceID e) serial (es_active s3)\<rparr>, Inr ()))"

definition TouchLastSeen :: "estore \<Rightarrow> string \<Rightarrow> time \<Rightarrow> estore \<times> unit result" where
  "TouchLastSeen s serial at =
     (if map_of (es_enrollments s) serial = None then (s, Inl [Storage_ErrNotFound])
      else (s\<lparr>es_enrollments := AList.map_entry serial
              (\<lambda>e. if en_LastSeenAt e < at then e\<lparr>en_LastSeenAt := at\<rparr> else e) (es_enrollments s)\<rparr>, Inr ()))"

definition enrollment_matches :: "enrollment_query \<Rightarrow> enrollment \<Rightarrow> bool" where
  "enrollment_matches q e =
     ((eq_State q = [] \<or> en_State e = eq_State q)
      \<and> (eq_EnrollmentType q = [] \<or> en_EnrollmentType e = eq_EnrollmentType q)
      \<and> (eq_UPN q = [] \<or> en_UPN e = eq_UPN q) \<and> (eq_DeviceID q = [] \<or> en_DeviceID e = eq_DeviceID q))"

definition List_enrollments :: "estore \<Rightarrow> enrollment_query \<Rightarrow> page \<Rightarrow> enrollment page_result result" where
  "List_enrollments s q p =
     page_of (sortEnrollments (filter (enrollment_matches q) (map snd (es_enrollments s)))) p"

definition PutCertificate :: "estore \<Rightarrow> certificate option \<Rightarrow> estore \<times> unit result" where
  "PutCertificate s co =
     (case certificate_Validate co of
        Inl err \<Rightarrow> (s, Inl (Storage_ErrInvalid # err))
      | Inr _ \<Rightarrow>
          let c = the co
          in if map_of (es_certs s) (ce_Serial c) \<noteq> None then (s, Inl [Storage_ErrConflict])
             else if map_of (es_certThumb s) (ce_Thumbprint c) \<noteq> None then (s, Inl [Storage_ErrConflict])
             else (s\<lparr>es_certs := AList.update (ce_Serial c) c (es_certs s),
                     es_certThumb := AList.update (ce_Thumbprint c) (ce_Serial c) (es_certThumb s)\<rparr>, Inr ()))"

definition stored_certificate :: "estore \<Rightarrow> string option \<Rightarrow> certificate result" where
  "stored_certificate s serial =
     (case serial of None \<Rightarrow> Inl [Storage_ErrNotFound]
      | Some k \<Rightarrow> (case map_of (es_certs s) k of None \<Rightarrow> Inl [Storage_ErrNotFound] | Some c \<Rightarrow> Inr c))"

definition Certificate :: "estore \<Rightarrow> string \<Rightarrow> certificate result" where
  "Certificate s serial = stored_certificate s (Some serial)"

definition CertificateByThumbprint :: "estore \<Rightarrow> string \<Rightarrow> certificate result" where
  "CertificateByThumbprint s thumbprint = stored_certificate s (map_of (es_certThumb s) thumbprint)"

definition Revoke :: "estore \<Rightarrow> string \<Rightarrow> time \<Rightarrow> estore \<times> unit result" where
  "Revoke s serial at =
     (if map_of (es_certs s) serial = None then (s, Inl [Storage_ErrNotFound])
      else (s\<lparr>es_certs := AList.map_entry serial
              (\<lambda>c. if \<not> ce_Revoked c then c\<lparr>ce_Revoked := True, ce_RevokedAt := at\<rparr> else c) (es_certs s)\<rparr>, Inr ()))"

definition certificate_matches :: "certificate_query \<Rightarrow> certificate \<Rightarrow> bool" where
  "certificate_matches q c =
     ((cq_DeviceID q = [] \<or> ce_DeviceID c = cq_DeviceID q)
      \<and> (case cq_Revoked q of None \<Rightarrow> True | Some r \<Rightarrow> ce_Revoked c = r)
      \<and> (IsZero (cq_ExpiresBefore q) \<or> ce_NotAfter c < cq_ExpiresBefore q))"

definition ListCertificates :: "estore \<Rightarrow> certificate_query \<Rightarrow> page \<Rightarrow> certificate page_result result" where
  "ListCertificates s q p =
     page_of (sort_key (\<lambda>c. (ce_NotBefore c, ce_Serial c)) (filter (certificate_matches q) (map snd (es_certs s)))) p"

definition PutMDMCredential :: "estore \<Rightarrow> mdm_credential \<Rightarrow> estore \<times> unit result" where
  "PutMDMCredential s c =
     (if cd_DeviceID c = [] then (s, Inl [Storage_ErrInvalid])
      else (s\<lparr>es_creds := AList.update (cd_DeviceID c) c (es_creds s)\<rparr>, Inr ()))"

definition MDMCredential :: "estore \<Rightarrow> string \<Rightarrow> mdm_credential result" where
  "MDMCredential s deviceID =
     (case map_of (es_creds s) deviceID of None \<Rightarrow> Inl [Storage_ErrNotFound] | Some c \<Rightarrow> Inr c)"


section \<open>What a store promises\<close>

text \<open>A store with its operations, as the clients see it through \<open>storage.Store\<close>.\<close>

record 's store_ops =
  sto_Create :: "'s \<Rightarrow> enrollment option \<Rightarrow> 's \<times> unit result"
  sto_Get :: "'s \<Rightarrow> string \<Rightarrow> enrollment result"
  sto_ListByHWDevID :: "'s \<Rightarrow> string \<Rightarrow> enrollment list result"
  sto_SetState :: "'s \<Rightarrow> string \<Rightarrow> string \<Rightarrow> time \<Rightarrow> 's \<times> unit result"
  sto_TouchLastSeen :: "'s \<Rightarrow> string \<Rightarrow> time \<Rightarrow> 's \<times> unit result"
  sto_PutCertificate :: "'s \<Rightarrow> certificate option \<Rightarrow> 's \<times> unit result"
  sto_Revoke :: "'s \<Rightarrow> string \<Rightarrow> time \<Rightarrow> 's \<times> unit result"

definition inmem_store :: "estore store_ops" where
  "inmem_store = \<lparr>sto_Create = Create, sto_Get = Get_enrollment, sto_ListByHWDevID = ListByHWDevID,
     sto_SetState = SetState, sto_TouchLastSeen = TouchLastSeen, sto_PutCertificate = PutCertificate,
     sto_Revoke = Revoke\<rparr>"

text \<open>The contract: a table of enrollments by serial, and what each operation does to it.\<close>

type_synonym etable = "string \<Rightarrow> enrollment option"

definition live :: "string \<Rightarrow> enrollment \<Rightarrow> bool" where
  "live d e = (en_DeviceID e = d \<and> en_State e = StateActive)"

definition spec_retire :: "string \<Rightarrow> time \<Rightarrow> etable \<Rightarrow> etable" where
  "spec_retire d at m = (\<lambda>k. map_option (\<lambda>e. if live d e then superseded at e else e) (m k))"

definition spec_fresh :: "enrollment \<Rightarrow> etable \<Rightarrow> bool" where
  "spec_fresh e m = (m (en_Serial e) = None \<and> (\<forall>k x. m k = Some x \<longrightarrow> en_Thumbprint x \<noteq> en_Thumbprint e))"

definition spec_Create :: "enrollment \<Rightarrow> etable \<Rightarrow> etable" where
  "spec_Create e m =
     (spec_retire (en_DeviceID e) (en_EnrolledAt e) m)
       (en_Serial e \<mapsto> e\<lparr>en_State := StateActive, en_UpdatedAt := en_EnrolledAt e\<rparr>)"

definition spec_SetState :: "string \<Rightarrow> string \<Rightarrow> time \<Rightarrow> etable \<Rightarrow> etable" where
  "spec_SetState k st at m =
     (case m k of None \<Rightarrow> m
      | Some e \<Rightarrow> (if st = StateActive then spec_retire (en_DeviceID e) at m else m)
                    (k \<mapsto> e\<lparr>en_State := st, en_UpdatedAt := at\<rparr>))"

definition spec_Touch :: "string \<Rightarrow> time \<Rightarrow> etable \<Rightarrow> etable" where
  "spec_Touch k at m = m(k := map_option (\<lambda>e. if en_LastSeenAt e < at then e\<lparr>en_LastSeenAt := at\<rparr> else e) (m k))"

section \<open>The store keeps its indexes consistent\<close>

definition index_of :: "(string \<Rightarrow> string option) \<Rightarrow> (string \<Rightarrow> 'a option) \<Rightarrow> (string \<Rightarrow> 'a \<Rightarrow> bool) \<Rightarrow> bool" where
  "index_of ix m P = (\<forall>d k. (ix d = Some k) = (\<exists>e. m k = Some e \<and> P d e))"

abbreviation has_thumb :: "string \<Rightarrow> enrollment \<Rightarrow> bool" where
  "has_thumb t e \<equiv> en_Thumbprint e = t"

definition table_inv :: "etable \<Rightarrow> bool" where
  "table_inv m = (\<forall>k e. m k = Some e \<longrightarrow> en_Serial e = k \<and> state_Valid (en_State e))"

definition estore_inv :: "estore \<Rightarrow> bool" where
  "estore_inv s =
     (distinct (map fst (es_enrollments s)) \<and> distinct (map fst (es_certs s))
      \<and> table_inv (map_of (es_enrollments s))
      \<and> (\<forall>k c. map_of (es_certs s) k = Some c \<longrightarrow> ce_Serial c = k)
      \<and> index_of (map_of (es_active s)) (map_of (es_enrollments s)) live
      \<and> index_of (map_of (es_byThumb s)) (map_of (es_enrollments s)) has_thumb
      \<and> index_of (map_of (es_certThumb s)) (map_of (es_certs s)) (\<lambda>t c. ce_Thumbprint c = t))"

abbreviation table_of :: "estore \<Rightarrow> etable" where
  "table_of s \<equiv> map_of (es_enrollments s)"

lemmas alist_simps = AList.update_conv' AList.delete_conv' map_of_map_entry

lemma state_distinct [simp]:
  "StateActive \<noteq> StateSuperseded" "StateSuperseded \<noteq> StateActive"
  "StateUnenrolled \<noteq> StateActive" "StateActive \<noteq> StateUnenrolled"
  "state_Valid StateActive" "state_Valid StateSuperseded" "state_Valid StateUnenrolled"
  by (auto simp: enrollment_states state_Valid_def)

lemma superseded_simps [simp]:
  "en_Serial (superseded at e) = en_Serial e" "en_Thumbprint (superseded at e) = en_Thumbprint e"
  "en_DeviceID (superseded at e) = en_DeviceID e" "en_State (superseded at e) = StateSuperseded"
  "\<not> live d (superseded at e)"
  by (simp_all add: superseded_def live_def)

lemma index_lookup: "index_of ix m P \<Longrightarrow> ix d = Some k \<Longrightarrow> \<exists>e. m k = Some e \<and> P d e"
  by (simp add: index_of_def)

lemma index_unique: "index_of ix m P \<Longrightarrow> m k = Some e \<Longrightarrow> P d e \<Longrightarrow> ix d = Some k"
  by (auto simp: index_of_def)

lemma index_absent: "index_of ix m P \<Longrightarrow> (ix d = None) = (\<forall>k e. m k = Some e \<longrightarrow> \<not> P d e)"
  unfolding index_of_def by (metis not_None_eq option.distinct(1))

text \<open>Adding an entry, and changing entries in a way the index does not see.\<close>

lemma index_insert:
  "index_of ix m P \<Longrightarrow> m k = None \<Longrightarrow> ix d = None \<Longrightarrow> (\<And>d'. P d' e = (d' = d)) \<Longrightarrow>
   index_of (ix(d \<mapsto> k)) (m(k \<mapsto> e)) P"
  unfolding index_of_def by (auto split: if_splits) (metis option.distinct(1))+

lemma index_change:
  assumes "index_of ix m P" and r: "\<And>k. rel_option (\<lambda>e e'. \<forall>d. P d e = P d e') (m k) (m' k)"
  shows "index_of ix m' P"
proof -
  have "(\<exists>e. m k = Some e \<and> P d e) = (\<exists>e. m' k = Some e \<and> P d e)" for d k
    using r [of k] by (cases "m k"; cases "m' k") auto
  then show ?thesis using assms(1) by (simp add: index_of_def)
qed

lemma index_upd:
  "index_of ix m P \<Longrightarrow> m k = Some e \<Longrightarrow> (\<And>d. P d e' = P d e) \<Longrightarrow> index_of ix (m(k \<mapsto> e')) P"
  by (erule index_change) (auto intro: option.rel_refl)

text \<open>The one entry an index names is the one the specification's retirement changes.\<close>

lemma retire_map:
  assumes "index_of ix m live"
  shows "spec_retire d at m = (case ix d of None \<Rightarrow> m | Some k \<Rightarrow> m(k := map_option (superseded at) (m k)))"
proof (cases "ix d")
  case None
  then show ?thesis using index_absent [OF assms, of d]
    by (auto simp: spec_retire_def fun_eq_iff intro!: option.map_ident_strong)
next
  case (Some k)
  from index_lookup [OF assms Some] obtain e where e: "m k = Some e" "live d e" by blast
  have other: "\<not> live d x" if "m k' = Some x" "k' \<noteq> k" for k' x
    using index_unique [OF assms that(1)] that(2) Some by force
  show ?thesis using e other Some
    by (auto simp: spec_retire_def fun_eq_iff intro!: option.map_ident_strong)
qed

lemma retire_entry:
  "index_of ix (map_of xs) live \<Longrightarrow>
   map_of (case ix d of None \<Rightarrow> xs | Some k \<Rightarrow> AList.map_entry k (superseded at) xs) = spec_retire d at (map_of xs)"
  by (auto simp: retire_map alist_simps split: option.split)

text \<open>Activating an entry retires the others of its device.\<close>

lemma index_activate:
  assumes "index_of ix m live" "live d e" "m k = None \<or> (\<exists>x. m k = Some x \<and> en_DeviceID x = d)"
  shows "index_of (ix(d \<mapsto> k)) ((spec_retire d at m)(k \<mapsto> e)) live"
  unfolding index_of_def
proof (intro allI)
  fix d' k'
  have e: "live d' e = (d' = d)" using assms(2) by (auto simp: live_def)
  show "((ix(d \<mapsto> k)) d' = Some k') = (\<exists>x. ((spec_retire d at m)(k \<mapsto> e)) k' = Some x \<and> live d' x)"
  proof (cases "k' = k")
    case True
    then show ?thesis using assms(1,3) e by (auto simp: index_of_def live_def)
  next
    case False
    have "(\<exists>x. spec_retire d at m k' = Some x \<and> live d' x) = (d' \<noteq> d \<and> (\<exists>x. m k' = Some x \<and> live d' x))"
      by (cases "m k'") (auto simp: spec_retire_def live_def)
    then show ?thesis using False assms(1) by (auto simp: index_of_def)
  qed
qed

section \<open>Every operation keeps the invariant and follows the contract\<close>

lemma retire_simps:
  "(spec_retire d at m k = None) = (m k = None)"
  "table_inv m \<Longrightarrow> table_inv (spec_retire d at m)"
  by (auto simp: spec_retire_def table_inv_def)

lemma retire_thumb:
  "index_of ix m has_thumb \<Longrightarrow> index_of ix (spec_retire d at m) has_thumb"
  by (erule index_change) (auto simp: spec_retire_def option.rel_map intro!: option.rel_refl)

lemma entry_keys [simp]: "map fst (AList.map_entry k f xs) = map fst xs"
  by (induction xs) auto

lemma Create_cases:
  assumes "estore_inv s"
  obtains (refused) err where "Create s eo = (s, Inl err)"
    "eo = None \<or> enrollment_Validate eo \<noteq> Inr () \<or> \<not> spec_fresh (the eo) (table_of s)"
  | (created) e s' where "eo = Some e" "enrollment_Validate eo = Inr ()" "spec_fresh e (table_of s)"
    "Create s eo = (s', Inr ())" "table_of s' = spec_Create e (table_of s)" "estore_inv s'"
    "es_certs s' = es_certs s" "es_creds s' = es_creds s"
proof (cases "enrollment_Validate eo")
  case (Inl err)
  then show ?thesis using refused by (simp add: Create_def)
next
  case (Inr u)
  then obtain e where e: "eo = Some e" by (cases eo) (auto simp: enrollment_Validate_def)
  let ?new = "e\<lparr>en_State := StateActive, en_UpdatedAt := en_EnrolledAt e\<rparr>"
  let ?xs = "case map_of (es_active s) (en_DeviceID e) of None \<Rightarrow> es_enrollments s
             | Some k \<Rightarrow> AList.map_entry k (superseded (en_EnrolledAt e)) (es_enrollments s)"
  let ?s' = "s\<lparr>es_enrollments := AList.update (en_Serial e) ?new ?xs,
               es_active := AList.update (en_DeviceID e) (en_Serial e) (es_active s),
               es_byThumb := AList.update (en_Thumbprint e) (en_Serial e) (es_byThumb s)\<rparr>"
  note inv = assms [unfolded estore_inv_def]
  have fresh: "spec_fresh e (table_of s)
      = (table_of s (en_Serial e) = None \<and> map_of (es_byThumb s) (en_Thumbprint e) = None)"
    using inv index_absent [of "map_of (es_byThumb s)" "table_of s" has_thumb "en_Thumbprint e"]
    by (simp add: spec_fresh_def)
  show ?thesis
  proof (cases "spec_fresh e (table_of s)")
    case False
    then have "Create s eo = (s, Inl [Storage_ErrConflict])"
      unfolding fresh Create_def using Inr e by auto
    then show ?thesis using refused e False by simp
  next
    case True
    have run: "Create s eo = (?s', Inr ())"
      using True Inr e by (simp add: Create_def Let_def fresh split: option.split)
    have tab: "table_of ?s' = spec_Create e (table_of s)"
      using inv by (simp add: alist_simps retire_entry spec_Create_def)
    have "distinct (map fst (es_enrollments ?s'))"
      using inv by (simp add: AList.distinct_update split: option.split)
    moreover have "table_inv (table_of ?s')"
      using inv retire_simps(2) [of "table_of s"] unfolding tab by (auto simp: spec_Create_def table_inv_def)
    moreover have "index_of (map_of (es_active ?s')) (table_of ?s') live"
      unfolding tab spec_Create_def using inv True
      by (auto simp: alist_simps spec_fresh_def live_def intro!: index_activate)
    moreover have "index_of (map_of (es_byThumb ?s')) (table_of ?s') has_thumb"
      unfolding tab spec_Create_def using inv True
      by (auto simp: alist_simps fresh retire_simps intro!: index_insert retire_thumb)
    ultimately have "estore_inv ?s'" using inv by (simp add: estore_inv_def)
    then show ?thesis using created [OF e _ True run tab] Inr by simp
  qed
qed

lemma index_deactivate:
  "index_of ix m live \<Longrightarrow> m k = Some e \<Longrightarrow> (\<And>d. \<not> live d e') \<Longrightarrow>
   index_of (if ix (en_DeviceID e) = Some k then ix(en_DeviceID e := None) else ix) (m(k \<mapsto> e')) live"
  unfolding index_of_def by (auto simp: live_def split: if_splits) (metis option.inject)

lemma SetState_effect:
  assumes "state_Valid st" "table_of s k = Some e" "index_of (map_of (es_active s)) (table_of s) live"
  shows "\<exists>s'. SetState s k st at = (s', Inr ()) \<and> table_of s' = spec_SetState k st at (table_of s)
    \<and> map fst (es_enrollments s') = map fst (es_enrollments s)
    \<and> map_of (es_active s') = (if st = StateActive then (map_of (es_active s))(en_DeviceID e \<mapsto> k)
        else if map_of (es_active s) (en_DeviceID e) = Some k then (map_of (es_active s))(en_DeviceID e := None)
        else map_of (es_active s))
    \<and> es_byThumb s' = es_byThumb s \<and> es_certs s' = es_certs s \<and> es_certThumb s' = es_certThumb s
    \<and> es_creds s' = es_creds s"
proof (cases "st = StateActive")
  case False
  then show ?thesis using assms(1,2) by (simp add: SetState_def spec_SetState_def alist_simps)
next
  case True
  then show ?thesis
  proof (cases "map_of (es_active s) (en_DeviceID e)")
    case None
    then show ?thesis using True assms(2,3)
      by (simp add: SetState_def spec_SetState_def alist_simps retire_map)
  next
    case (Some prev)
    then show ?thesis using True assms(2,3)
      by (cases "prev = k") (simp_all add: SetState_def Let_def spec_SetState_def alist_simps retire_map
          map_option_case fun_upd_twist [of k prev])
  qed
qed

lemma SetState_cases:
  assumes "estore_inv s"
  obtains (refused) err where "SetState s k st at = (s, Inl err)" "\<not> state_Valid st \<or> table_of s k = None"
  | (changed) e s' where "state_Valid st" "table_of s k = Some e" "SetState s k st at = (s', Inr ())"
    "table_of s' = spec_SetState k st at (table_of s)" "estore_inv s'"
    "es_certs s' = es_certs s" "es_creds s' = es_creds s"
proof (cases "state_Valid st \<and> table_of s k \<noteq> None")
  case False
  then have "\<exists>err. SetState s k st at = (s, Inl err)" by (auto simp: SetState_def)
  then show ?thesis using refused False by blast
next
  case True
  then obtain e where e: "table_of s k = Some e" and st: "state_Valid st" by blast
  note inv = assms [unfolded estore_inv_def]
  have lv: "index_of (map_of (es_active s)) (table_of s) live"
    and th: "index_of (map_of (es_byThumb s)) (table_of s) has_thumb" and ti: "table_inv (table_of s)"
    using inv by blast+
  from SetState_effect [OF st e lv] obtain s' where s': "SetState s k st at = (s', Inr ())"
    "table_of s' = spec_SetState k st at (table_of s)" "map fst (es_enrollments s') = map fst (es_enrollments s)"
    and act: "map_of (es_active s') = (if st = StateActive then (map_of (es_active s))(en_DeviceID e \<mapsto> k)
        else if map_of (es_active s) (en_DeviceID e) = Some k then (map_of (es_active s))(en_DeviceID e := None)
        else map_of (es_active s))"
    and rest: "es_byThumb s' = es_byThumb s" "es_certs s' = es_certs s" "es_certThumb s' = es_certThumb s"
      "es_creds s' = es_creds s"
    by blast
  let ?e' = "e\<lparr>en_State := st, en_UpdatedAt := at\<rparr>"
  have "table_inv (table_of s')"
    using ti e st retire_simps(2) [OF ti] unfolding s' by (auto simp: spec_SetState_def table_inv_def)
  moreover have "index_of (map_of (es_active s')) (table_of s') live"
  proof (cases "st = StateActive")
    case True
    then show ?thesis unfolding s' act using e index_activate [OF lv, of "en_DeviceID e" ?e' k at]
      by (simp add: spec_SetState_def live_def)
  next
    case False
    then show ?thesis unfolding s' act using e index_deactivate [OF lv e, of ?e']
      by (simp add: spec_SetState_def live_def)
  qed
  moreover have "index_of (map_of (es_byThumb s')) (table_of s') has_thumb"
    unfolding s' rest using e index_upd [OF th e, of ?e']
      index_upd [OF retire_thumb [OF th], of "en_DeviceID e" at k _ ?e']
    by (cases "live (en_DeviceID e) e"; cases "st = StateActive") (simp_all add: spec_SetState_def spec_retire_def)
  ultimately have "estore_inv s'" using inv s'(3) by (simp add: estore_inv_def rest)
  then show ?thesis using changed [OF st e s'(1,2)] rest by simp
qed

lemma TouchLastSeen_keeps:
  assumes "estore_inv s" "TouchLastSeen s k at = (s', r)"
  shows "estore_inv s'" "table_of s' = spec_Touch k at (table_of s)" "es_certs s' = es_certs s"
    "es_creds s' = es_creds s" "isl r = (table_of s k = None)"
proof -
  note inv = assms(1) [unfolded estore_inv_def]
  show tab: "table_of s' = spec_Touch k at (table_of s)" and rest: "es_certs s' = es_certs s"
    "es_creds s' = es_creds s" and "isl r = (table_of s k = None)"
    using assms(2) by (auto simp: TouchLastSeen_def spec_Touch_def alist_simps fun_eq_iff map_option_case split: if_splits)
  have ix: "es_active s' = es_active s" "es_byThumb s' = es_byThumb s" "es_certThumb s' = es_certThumb s"
    "map fst (es_enrollments s') = map fst (es_enrollments s)"
    using assms(2) by (auto simp: TouchLastSeen_def split: if_splits)
  have same: "index_of ix (table_of s') P" if "index_of ix (table_of s) P" "\<And>d e. P d (e\<lparr>en_LastSeenAt := at\<rparr>) = P d e" for ix P
    unfolding tab by (rule index_change [OF that(1)]) (auto simp: spec_Touch_def option.rel_map that(2) intro: option.rel_refl)
  have "table_inv (table_of s')" using inv unfolding tab by (auto simp: spec_Touch_def table_inv_def)
  then show "estore_inv s'"
    using inv same [of "map_of (es_active s)" live] same [of "map_of (es_byThumb s)" has_thumb]
    by (simp add: estore_inv_def rest ix live_def)
qed

abbreviation cert_table :: "estore \<Rightarrow> string \<Rightarrow> certificate option" where
  "cert_table s \<equiv> map_of (es_certs s)"

lemma PutCertificate_keeps:
  assumes "estore_inv s" "PutCertificate s co = (s', r)"
  shows "estore_inv s'" "table_of s' = table_of s" "es_creds s' = es_creds s"
    "case r of Inl _ \<Rightarrow> s' = s | Inr _ \<Rightarrow> \<exists>c. co = Some c \<and> cert_table s (ce_Serial c) = None
       \<and> cert_table s' = (cert_table s)(ce_Serial c \<mapsto> c)"
proof -
  note inv = assms(1) [unfolded estore_inv_def]
  consider (refused) err where "s' = s" "r = Inl err"
    | (put) c where "co = Some c" "r = Inr ()" "cert_table s (ce_Serial c) = None" "map_of (es_certThumb s) (ce_Thumbprint c) = None"
      "s' = s\<lparr>es_certs := AList.update (ce_Serial c) c (es_certs s),
              es_certThumb := AList.update (ce_Thumbprint c) (ce_Serial c) (es_certThumb s)\<rparr>"
  proof (cases "certificate_Validate co")
    case (Inl err)
    then show thesis using refused [of "Storage_ErrInvalid # err"] assms(2) by (simp add: PutCertificate_def)
  next
    case (Inr u)
    then obtain c where c: "co = Some c" by (cases co) (simp_all add: certificate_Validate_def)
    show thesis
    proof (cases "cert_table s (ce_Serial c) = None \<and> map_of (es_certThumb s) (ce_Thumbprint c) = None")
      case True
      then show thesis using put [OF c] Inr c assms(2) by (simp add: PutCertificate_def)
    next
      case False
      then have "PutCertificate s co = (s, Inl [Storage_ErrConflict])"
        using Inr c unfolding PutCertificate_def by auto
      then show thesis using refused assms(2) by simp
    qed
  qed
  then have "estore_inv s' \<and> table_of s' = table_of s \<and> es_creds s' = es_creds s
    \<and> (case r of Inl _ \<Rightarrow> s' = s | Inr _ \<Rightarrow> \<exists>c. co = Some c \<and> cert_table s (ce_Serial c) = None
       \<and> cert_table s' = (cert_table s)(ce_Serial c \<mapsto> c))"
  proof cases
    case refused
    then show ?thesis using assms(1) by simp
  next
    case put
    have "index_of ((map_of (es_certThumb s))(ce_Thumbprint c \<mapsto> ce_Serial c)) ((cert_table s)(ce_Serial c \<mapsto> c)) (\<lambda>t c. ce_Thumbprint c = t)"
      using inv put(3,4) by (intro index_insert) auto
    then show ?thesis using inv put by (auto simp: estore_inv_def alist_simps AList.distinct_update)
  qed
  then show "estore_inv s'" "table_of s' = table_of s" "es_creds s' = es_creds s"
    "case r of Inl _ \<Rightarrow> s' = s | Inr _ \<Rightarrow> \<exists>c. co = Some c \<and> cert_table s (ce_Serial c) = None
       \<and> cert_table s' = (cert_table s)(ce_Serial c \<mapsto> c)"
    by blast+
qed

text \<open>Revoking twice keeps the first time.\<close>

definition revoked_at :: "time \<Rightarrow> certificate \<Rightarrow> certificate" where
  "revoked_at at c = (if \<not> ce_Revoked c then c\<lparr>ce_Revoked := True, ce_RevokedAt := at\<rparr> else c)"

lemma revoked_at_simps [simp]:
  "ce_Serial (revoked_at at c) = ce_Serial c" "ce_Thumbprint (revoked_at at c) = ce_Thumbprint c"
  "ce_Revoked (revoked_at at c)"
  by (simp_all add: revoked_at_def)

lemma Revoke_keeps:
  assumes "estore_inv s" "Revoke s k at = (s', r)"
  shows "estore_inv s'" "table_of s' = table_of s" "es_creds s' = es_creds s"
    "cert_table s' = (cert_table s)(k := map_option (revoked_at at) (cert_table s k))"
    "isl r = (cert_table s k = None)"
proof -
  note inv = assms(1) [unfolded estore_inv_def]
  show tab: "cert_table s' = (cert_table s)(k := map_option (revoked_at at) (cert_table s k))"
    and rest: "table_of s' = table_of s" "es_creds s' = es_creds s" and "isl r = (cert_table s k = None)"
    using assms(2) by (auto simp: Revoke_def revoked_at_def alist_simps fun_eq_iff map_option_case split: if_splits)
  have ix: "es_active s' = es_active s" "es_byThumb s' = es_byThumb s" "es_certThumb s' = es_certThumb s"
    "es_enrollments s' = es_enrollments s" "map fst (es_certs s') = map fst (es_certs s)"
    using assms(2) by (auto simp: Revoke_def split: if_splits)
  have "index_of (map_of (es_certThumb s)) (cert_table s') (\<lambda>t c. ce_Thumbprint c = t)"
    unfolding tab by (rule index_change [where m = "cert_table s"])
      (use inv in \<open>auto simp: option.rel_map intro: option.rel_refl\<close>)
  moreover have "\<forall>k c. cert_table s' k = Some c \<longrightarrow> ce_Serial c = k"
    using inv unfolding tab by auto
  ultimately show "estore_inv s'" using inv by (simp add: estore_inv_def rest ix)
qed

lemma NewStore_inv: "estore_inv NewStore"
  by (simp add: estore_inv_def NewStore_def table_inv_def index_of_def)

section \<open>The clients of a store\<close>

text \<open>\<open>sha1\<close> is \<open>sha1.Sum\<close>; \<open>serial_String\<close> is \<open>big.Int.String\<close>.\<close>

definition Thumbprint :: "(string \<Rightarrow> string) \<Rightarrow> string \<Rightarrow> string" where
  "Thumbprint sha1 der = concat (map (\<lambda>c. [hex_char (byte c div 16), hex_char (byte c mod 16)]) (sha1 der))"

definition serial_String :: "int option \<Rightarrow> string" where
  "serial_String n = (case n of None \<Rightarrow> ''<nil>'' | Some k \<Rightarrow> Itoa k)"

text \<open>\<open>MDMAuthenticator\<close>: \<open>get\<close> is the store's \<open>Get\<close>, \<open>creds\<close> its credentials when there are any.\<close>

definition Lookup :: "(string \<Rightarrow> enrollment result) \<Rightarrow> (string \<Rightarrow> mdm_credential result) option \<Rightarrow> string \<Rightarrow> identity result" where
  "Lookup get creds deviceID =
     (case get deviceID of
        Inl err \<Rightarrow> if errors_is err Storage_ErrNotFound then Inl [Mdm_ErrUnenrolled] else Inl err
      | Inr e \<Rightarrow>
          let i = \<lparr>id_DeviceID = en_DeviceID e, id_EnrollmentKey = en_Serial e,
                   id_CertificateThumbprint = en_Thumbprint e, id_AuthType = AuthCertificate, id_CredentialHash = []\<rparr>
          in case creds of
               None \<Rightarrow> Inr i
             | Some f \<Rightarrow>
                 (case f deviceID of
                    Inr c \<Rightarrow> Inr (i\<lparr>id_AuthType := cd_AuthType c, id_CredentialHash := cd_CredentialHash c\<rparr>)
                  | Inl err \<Rightarrow> if errors_is err Storage_ErrNotFound then Inr i else Inl err))"

definition leaf_matches :: "(string \<Rightarrow> string) \<Rightarrow> identity \<Rightarrow> cert option list \<Rightarrow> bool" where
  "leaf_matches sha1 i chain =
     (case chain of
        Some c # _ \<Rightarrow> ct_SerialNumber c \<noteq> None \<and> ct_Raw c \<noteq> [] \<and> serial_String (ct_SerialNumber c) = id_EnrollmentKey i
          \<and> Thumbprint sha1 (ct_Raw c) = id_CertificateThumbprint i
      | _ \<Rightarrow> False)"

definition TrustCertificate :: "(string \<Rightarrow> string) \<Rightarrow> (identity \<Rightarrow> cert option list list \<Rightarrow> bool) option
    \<Rightarrow> identity option \<Rightarrow> cert option list list \<Rightarrow> bool" where
  "TrustCertificate sha1 policy io verifiedChains =
     (case io of
        None \<Rightarrow> False
      | Some i \<Rightarrow>
          if verifiedChains = [] then False
          else case policy of
              Some f \<Rightarrow> f i verifiedChains
            | None \<Rightarrow> if id_EnrollmentKey i = [] \<or> id_CertificateThumbprint i = [] then False
                      else list_ex (leaf_matches sha1 i) verifiedChains)"

text \<open>\<open>Recorder\<close>: the issued certificate, and what \<open>enroll.Enrollment\<close> says of the request.\<close>

record issued_cert = cert +
  xc_Subject :: string
  xc_NotBefore :: time
  xc_NotAfter :: time

record issued_request =
  ir_Context :: additional_context
  ir_UPN :: string

record issued =
  is_Request :: "issued_request option"
  is_Certificate :: "issued_cert option"
  is_EnrolledAt :: time

record conflict =
  cf_HWDevID :: string
  cf_Existing :: "enrollment list"
  cf_New :: enrollment

definition new_record :: "(string \<Rightarrow> string) \<Rightarrow> issued_cert \<Rightarrow> issued_request \<Rightarrow> time \<Rightarrow> enrollment" where
  "new_record sha1 c q at = \<lparr>en_Serial = serial_String (ct_SerialNumber c), en_Thumbprint = Thumbprint sha1 (ct_Raw c),
     en_DeviceID = cx_DeviceID (ir_Context q), en_HWDevID = cx_HWDevID (ir_Context q),
     en_EnrollmentType = cx_EnrollmentType (ir_Context q), en_UPN = ir_UPN q, en_Context = ir_Context q,
     en_State = [], en_EnrolledAt = at, en_UpdatedAt = 0, en_LastSeenAt = 0\<rparr>"

definition new_certificate :: "issued_cert \<Rightarrow> enrollment \<Rightarrow> certificate" where
  "new_certificate c rec' = \<lparr>ce_Serial = en_Serial rec', ce_Thumbprint = en_Thumbprint rec', ce_Subject = xc_Subject c,
     ce_DeviceID = en_DeviceID rec', ce_NotBefore = xc_NotBefore c, ce_NotAfter = xc_NotAfter c, ce_Raw = ct_Raw c,
     ce_Revoked = False, ce_RevokedAt = 0\<rparr>"

definition Record :: "(string \<Rightarrow> string) \<Rightarrow> (conflict \<Rightarrow> unit result) option \<Rightarrow> 's store_ops \<Rightarrow> 's \<Rightarrow> issued option
    \<Rightarrow> 's \<times> unit result" where
  "Record sha1 sink S s eo =
     (case eo of None \<Rightarrow> (s, Inl [Storage_ErrInvalid])
      | Some e \<Rightarrow>
        (case (is_Certificate e, is_Request e) of
           (Some c, Some q) \<Rightarrow>
             let rec' = new_record sha1 c q (is_EnrolledAt e)
             in case sto_PutCertificate S s (Some (new_certificate c rec')) of
                  (s1, Inl err) \<Rightarrow> (s1, Inl err)
                | (s1, Inr _) \<Rightarrow>
                    (case (if en_HWDevID rec' \<noteq> [] then sto_ListByHWDevID S s1 (en_HWDevID rec') else Inr []) of
                       Inl err \<Rightarrow> (s1, Inl err)
                     | Inr all \<Rightarrow>
                         let existing = filter (\<lambda>prev. en_DeviceID prev \<noteq> en_DeviceID rec') all
                         in case sto_Create S s1 (Some rec') of
                              (s2, Inl err) \<Rightarrow> (s2, Inl err)
                            | (s2, Inr _) \<Rightarrow>
                                (case sink of
                                   None \<Rightarrow> (s2, Inr ())
                                 | Some f \<Rightarrow>
                                     if existing = [] then (s2, Inr ())
                                     else (case f \<lparr>cf_HWDevID = en_HWDevID rec', cf_Existing = existing, cf_New = rec'\<rparr> of
                                             Inl err \<Rightarrow> (s2, Inl err) | Inr _ \<Rightarrow> (s2, Inr ()))))
         | _ \<Rightarrow> (s, Inl [Storage_ErrInvalid])))"

definition Unenroll :: "'s store_ops \<Rightarrow> 's \<Rightarrow> string \<Rightarrow> time \<Rightarrow> 's \<times> unit result" where
  "Unenroll S s serial at =
     (case sto_SetState S s serial StateUnenrolled at of
        (s1, Inl err) \<Rightarrow> (s1, Inl err)
      | (s1, Inr _) \<Rightarrow> sto_Revoke S s1 serial at)"

section \<open>What the clients get from any store that keeps the contract\<close>

text \<open>What survives every operation: the device and the certificate an enrollment was made for.\<close>

definition same_binding :: "enrollment \<Rightarrow> enrollment \<Rightarrow> bool" where
  "same_binding e e' = (en_Serial e' = en_Serial e \<and> en_DeviceID e' = en_DeviceID e \<and> en_Thumbprint e' = en_Thumbprint e)"

definition keeps_bindings :: "etable \<Rightarrow> etable \<Rightarrow> bool" where
  "keeps_bindings m m' = (\<forall>k e. m k = Some e \<longrightarrow> (\<exists>e'. m' k = Some e' \<and> same_binding e e'))"

lemma keeps_bindings_refl [simp]: "keeps_bindings m m"
  by (simp add: keeps_bindings_def same_binding_def)

lemma keeps_bindings_trans [trans]:
  "keeps_bindings a b \<Longrightarrow> keeps_bindings b c \<Longrightarrow> keeps_bindings a c"
  unfolding keeps_bindings_def same_binding_def by metis

lemma spec_keeps_bindings:
  "spec_fresh e m \<Longrightarrow> keeps_bindings m (spec_Create e m)"
  "keeps_bindings m (spec_SetState k st at m)"
  "keeps_bindings m (spec_Touch k at m)"
  by (auto simp: keeps_bindings_def same_binding_def spec_fresh_def spec_Create_def spec_SetState_def
      spec_Touch_def spec_retire_def split: option.splits)

locale enrollment_store =
  fixes S :: "'s store_ops"
    and store_inv :: "'s \<Rightarrow> bool"
    and table :: "'s \<Rightarrow> etable"
    and certs :: "'s \<Rightarrow> string \<Rightarrow> certificate option"
  assumes serials: "store_inv s \<Longrightarrow> table s k = Some e \<Longrightarrow> en_Serial e = k"
    and get: "store_inv s \<Longrightarrow> (sto_Get S s d = Inr e) = (\<exists>k. table s k = Some e \<and> live d e)"
    and get_missing: "store_inv s \<Longrightarrow> sto_Get S s d = Inl err \<Longrightarrow> errors_is err Storage_ErrNotFound"
    and list: "store_inv s \<Longrightarrow> hw \<noteq> [] \<Longrightarrow>
      \<exists>es. sto_ListByHWDevID S s hw = Inr es \<and> set es = {e. \<exists>k. table s k = Some e \<and> en_HWDevID e = hw}"
    and create: "store_inv s \<Longrightarrow> sto_Create S s eo = (s', r) \<Longrightarrow> store_inv s' \<and> certs s' = certs s
      \<and> (case r of Inl _ \<Rightarrow> s' = s
           | Inr _ \<Rightarrow> \<exists>e. eo = Some e \<and> spec_fresh e (table s) \<and> table s' = spec_Create e (table s))"
    and setState: "store_inv s \<Longrightarrow> sto_SetState S s k st at = (s', r) \<Longrightarrow> store_inv s' \<and> certs s' = certs s
      \<and> (case r of Inl _ \<Rightarrow> s' = s \<and> (\<not> state_Valid st \<or> table s k = None)
           | Inr _ \<Rightarrow> table s k \<noteq> None \<and> table s' = spec_SetState k st at (table s))"
    and touch: "store_inv s \<Longrightarrow> sto_TouchLastSeen S s k at = (s', r) \<Longrightarrow>
      store_inv s' \<and> certs s' = certs s \<and> table s' = spec_Touch k at (table s)"
    and putCertificate: "store_inv s \<Longrightarrow> sto_PutCertificate S s co = (s', r) \<Longrightarrow> store_inv s' \<and> table s' = table s
      \<and> (case r of Inl _ \<Rightarrow> s' = s
           | Inr _ \<Rightarrow> \<exists>c. co = Some c \<and> certs s (ce_Serial c) = None \<and> certs s' = (certs s)(ce_Serial c \<mapsto> c))"
    and revoke: "store_inv s \<Longrightarrow> sto_Revoke S s k at = (s', r) \<Longrightarrow> store_inv s' \<and> table s' = table s
      \<and> certs s' = (certs s)(k := map_option (revoked_at at) (certs s k)) \<and> isl r = (certs s k = None)"
begin

lemma single_live:
  assumes "store_inv s" "table s k = Some e" "live d e" "table s k' = Some e'" "live d e'"
  shows "k' = k" "e' = e"
proof -
  have "sto_Get S s d = Inr e" "sto_Get S s d = Inr e'" using get [OF assms(1)] assms(2-) by blast+
  then show "e' = e" by simp
  then show "k' = k" using serials [OF assms(1)] assms(2,4) by blast
qed

lemma lookup_live:
  assumes "store_inv s" "Lookup (sto_Get S s) cr d = Inr i"
  shows "\<exists>e. table s (id_EnrollmentKey i) = Some e \<and> live d e \<and> id_DeviceID i = d
    \<and> id_CertificateThumbprint i = en_Thumbprint e"
proof -
  obtain e where e: "sto_Get S s d = Inr e"
    using assms(2) by (cases "sto_Get S s d") (auto simp: Lookup_def split: if_splits)
  then obtain k where "table s k = Some e" "live d e" using get [OF assms(1)] by blast
  moreover have "id_EnrollmentKey i = en_Serial e" "id_DeviceID i = en_DeviceID e" "id_CertificateThumbprint i = en_Thumbprint e"
    using assms(2) e by (auto simp: Lookup_def Let_def split: option.splits sum.splits if_splits)
  ultimately show ?thesis using serials [OF assms(1)] by (auto simp: live_def)
qed

lemma lookup_missing:
  assumes "store_inv s" "\<And>k e. table s k = Some e \<Longrightarrow> \<not> live d e"
  shows "Lookup (sto_Get S s) cr d = Inl [Mdm_ErrUnenrolled]"
proof (cases "sto_Get S s d")
  case (Inl err)
  then show ?thesis using get_missing [OF assms(1) Inl] by (simp add: Lookup_def)
next
  case (Inr e)
  then show ?thesis using get [OF assms(1)] assms(2) by blast
qed

text \<open>A recorded enrollment replaces the one the device had, and touches no other device.\<close>

lemma record_cases:
  assumes "store_inv s" "Record sha1 sink S s eo = (s', r)"
  obtains (refused) "isl r" "store_inv s'" "table s' = table s"
  | (stored) e c q where "eo = Some e" "is_Certificate e = Some c" "is_Request e = Some q" "store_inv s'"
    "spec_fresh (new_record sha1 c q (is_EnrolledAt e)) (table s)"
    "table s' = spec_Create (new_record sha1 c q (is_EnrolledAt e)) (table s)"
proof -
  have inval: thesis if "eo = None \<or> is_Certificate (the eo) = None \<or> is_Request (the eo) = None"
    using that assms refused by (auto simp: Record_def split: option.splits)
  show thesis
  proof (cases "eo = None \<or> is_Certificate (the eo) = None \<or> is_Request (the eo) = None")
    case True
    then show thesis by (rule inval)
  next
    case False
    then obtain e c q where e: "eo = Some e" "is_Certificate e = Some c" "is_Request e = Some q" by auto
    let ?rec = "new_record sha1 c q (is_EnrolledAt e)"
    obtain s1 r1 where put: "sto_PutCertificate S s (Some (new_certificate c ?rec)) = (s1, r1)" by fastforce
    note p = putCertificate [OF assms(1) put]
    have "\<exists>all. (if en_HWDevID ?rec \<noteq> [] then sto_ListByHWDevID S s1 (en_HWDevID ?rec) else Inr []) = Inr all"
      using list [of s1 "en_HWDevID ?rec"] p by auto
    then obtain all where all: "(if en_HWDevID ?rec \<noteq> [] then sto_ListByHWDevID S s1 (en_HWDevID ?rec) else Inr []) = Inr all" ..
    obtain s2 r2 where cr: "sto_Create S s1 (Some ?rec) = (s2, r2)" by fastforce
    note c2 = create [OF conjunct1 [OF p] cr]
    show thesis
    proof (cases r1)
      case (Inl err)
      then show thesis using refused p assms(2) e put by (auto simp: Record_def)
    next
      case (Inr u)
      then have run: "Record sha1 sink S s eo = (case sto_Create S s1 (Some ?rec) of
            (s2, Inl err) \<Rightarrow> (s2, Inl err)
          | (s2, Inr _) \<Rightarrow> (s2, snd (Record sha1 sink S s eo)))"
        using e put all cr by (auto simp: Record_def Let_def split: sum.splits option.splits if_splits)
      show thesis
      proof (cases r2)
        case (Inl err)
        then show thesis using refused p c2 run assms(2) cr by auto
      next
        case (Inr u2)
        then show thesis using stored [OF e] p c2 run assms(2) cr by auto
      qed
    qed
  qed
qed

lemma record_binds:
  "store_inv s \<Longrightarrow> Record sha1 sink S s eo = (s', r) \<Longrightarrow> store_inv s' \<and> keeps_bindings (table s) (table s')"
  by (erule (1) record_cases) (auto intro: spec_keeps_bindings)

lemma unenroll_ends:
  assumes "store_inv s" "Unenroll S s k at = (s', r)"
  shows "store_inv s'" "table s' = spec_SetState k StateUnenrolled at (table s)"
    and "r = Inr () \<Longrightarrow> \<exists>c. certs s' k = Some c \<and> ce_Revoked c"
proof -
  obtain s1 r1 where set: "sto_SetState S s k StateUnenrolled at = (s1, r1)" by fastforce
  note p = setState [OF assms(1) set]
  obtain s2 r2 where rv: "sto_Revoke S s1 k at = (s2, r2)" by fastforce
  note q = revoke [OF conjunct1 [OF p] rv]
  have "store_inv s' \<and> table s' = spec_SetState k StateUnenrolled at (table s)
    \<and> (r = Inr () \<longrightarrow> (\<exists>c. certs s' k = Some c \<and> ce_Revoked c))"
  proof (cases r1)
    case (Inl err)
    then have "s' = s" "r = Inl err" "table s k = None"
      using assms(2) set p by (auto simp: Unenroll_def)
    then show ?thesis using assms(1) by (simp add: spec_SetState_def)
  next
    case (Inr u)
    then have s': "s' = s2" "r = r2" and t: "table s' = spec_SetState k StateUnenrolled at (table s)"
      using assms(2) set rv p q by (simp_all add: Unenroll_def)
    moreover have "r = Inr () \<longrightarrow> (\<exists>c. certs s' k = Some c \<and> ce_Revoked c)"
      using q unfolding s' by auto
    ultimately show ?thesis using q s' by blast
  qed
  then show "store_inv s'" "table s' = spec_SetState k StateUnenrolled at (table s)"
    "r = Inr () \<Longrightarrow> \<exists>c. certs s' k = Some c \<and> ce_Revoked c" by blast+
qed

text \<open>After its live enrollment has ended a device has none.\<close>

lemma unenroll_leaves_none:
  assumes "store_inv s" "table s k = Some e" "live d e" "Unenroll S s k at = (s', r)" "table s' k' = Some e'"
  shows "\<not> live d e'"
proof
  assume l: "live d e'"
  have t: "table s' = (table s)(k \<mapsto> e\<lparr>en_State := StateUnenrolled, en_UpdatedAt := at\<rparr>)"
    using unenroll_ends(2) [OF assms(1,4)] assms(2) by (simp add: spec_SetState_def)
  show False
    using single_live(1) [OF assms(1-3), of k' e'] assms(5) l
    by (cases "k' = k") (auto simp: t live_def)
qed

end

lemma stored_by_index:
  assumes "index_of ix (table_of s) P"
  shows "(stored_enrollment s (ix d) = Inr e) = (\<exists>k. table_of s k = Some e \<and> P d e)"
proof (cases "ix d")
  case None
  then show ?thesis using index_absent [OF assms, of d] by (auto simp: stored_enrollment_def)
next
  case (Some k)
  from index_lookup [OF assms Some] obtain x where x: "table_of s k = Some x" "P d x" by blast
  have "k' = k" if "table_of s k' = Some e" "P d e" for k'
    using index_unique [OF assms that] Some by simp
  then show ?thesis using Some x by (auto simp: stored_enrollment_def)
qed

interpretation es: enrollment_store inmem_store estore_inv table_of cert_table
proof (unfold_locales, goal_cases)
  case (1 s k e)
  then show ?case by (simp add: estore_inv_def table_inv_def)
next
  case (2 s d e)
  then have "index_of (map_of (es_active s)) (table_of s) live" by (simp add: estore_inv_def)
  from stored_by_index [OF this, of d e] show ?case by (simp add: inmem_store_def Get_enrollment_def)
next
  case (3 s d err)
  then show ?case
    by (auto simp: inmem_store_def Get_enrollment_def stored_enrollment_def errors_is_def split: option.splits)
next
  case (4 s hw)
  then have "distinct (map fst (es_enrollments s))" by (simp add: estore_inv_def)
  then show ?case using 4 by (force simp: inmem_store_def ListByHWDevID_def sortEnrollments_def)
next
  case (5 s eo s' r)
  show ?case
    by (rule Create_cases [OF 5(1), of eo]; use 5 in \<open>auto simp: inmem_store_def split: sum.split\<close>)
next
  case (6 s k st at s' r)
  show ?case
    by (rule SetState_cases [OF 6(1), of k st at]; use 6 in \<open>auto simp: inmem_store_def\<close>)
next
  case (7 s k at s' r)
  then show ?case using TouchLastSeen_keeps [of s k at s' r] by (simp add: inmem_store_def)
next
  case (8 s co s' r)
  then show ?case using PutCertificate_keeps [of s co s' r] by (simp add: inmem_store_def)
next
  case (9 s k at s' r)
  then show ?case using Revoke_keeps [of s k at s' r] by (simp add: inmem_store_def)
qed

lemma GetByThumbprint_spec:
  "estore_inv s \<Longrightarrow> (GetByThumbprint s t = Inr e) = (\<exists>k. table_of s k = Some e \<and> en_Thumbprint e = t)"
  unfolding GetByThumbprint_def by (rule stored_by_index) (simp add: estore_inv_def)

lemma listed_once:
  assumes "estore_inv s"
  shows "distinct (map en_Serial (sortEnrollments (filter P (map snd (es_enrollments s)))))"
proof -
  have d: "distinct (map fst (es_enrollments s))" and t: "table_inv (table_of s)"
    using assms by (simp_all add: estore_inv_def)
  have "\<forall>x \<in> set (es_enrollments s). en_Serial (snd x) = fst x"
    using t d by (auto simp: table_inv_def)
  then have "map en_Serial (map snd (es_enrollments s)) = map fst (es_enrollments s)" by simp
  then have "distinct (map en_Serial (filter P (map snd (es_enrollments s))))"
    using d distinct_map_filter by metis
  then show ?thesis by (simp add: sortEnrollments_def distinct_map)
qed

section \<open>The store as a table\<close>

datatype enrollment_op =
    OpCreate enrollment
  | OpSetState string string time
  | OpTouch string time

fun store_step :: "enrollment_op \<Rightarrow> estore \<Rightarrow> estore" where
  "store_step (OpCreate e) s = fst (Create s (Some e))"
| "store_step (OpSetState k st at) s = fst (SetState s k st at)"
| "store_step (OpTouch k at) s = fst (TouchLastSeen s k at)"

fun table_step :: "enrollment_op \<Rightarrow> etable \<Rightarrow> etable" where
  "table_step (OpCreate e) m =
     (if enrollment_Validate (Some e) = Inr () \<and> spec_fresh e m then spec_Create e m else m)"
| "table_step (OpSetState k st at) m = (if state_Valid st then spec_SetState k st at m else m)"
| "table_step (OpTouch k at) m = spec_Touch k at m"

lemma store_step_refines:
  assumes "estore_inv s"
  shows "estore_inv (store_step op s) \<and> table_of (store_step op s) = table_step op (table_of s)"
proof (cases op)
  case (OpCreate e)
  then show ?thesis
    by (cases rule: Create_cases [OF assms, of "Some e", case_names refused created]) (use assms in auto)
next
  case (OpSetState k st at)
  then show ?thesis
    by (cases rule: SetState_cases [OF assms, of k st at, case_names refused changed])
      (use assms in \<open>auto simp: spec_SetState_def\<close>)
next
  case (OpTouch k at)
  then show ?thesis using TouchLastSeen_keeps [OF assms prod.collapse [symmetric], of k at] by simp
qed

lemma store_run_refines:
  "estore_inv (fold store_step ops NewStore) \<and> table_of (fold store_step ops NewStore) = fold table_step ops Map.empty"
proof -
  have "estore_inv s \<Longrightarrow> estore_inv (fold store_step ops s) \<and> table_of (fold store_step ops s) = fold table_step ops (table_of s)" for s
  proof (induction ops arbitrary: s)
    case (Cons op ops)
    then show ?case using store_step_refines [OF Cons.prems, of op] by simp
  qed simp
  moreover have "table_of NewStore = Map.empty" by (simp add: NewStore_def)
  ultimately show ?thesis using NewStore_inv by metis
qed

section \<open>Properties\<close>

text \<open>
  C9. The in-memory store with its three maps is one table of enrollments. After any sequence of
  creations, state changes and sightings, accepted or refused, its contents are what the same
  sequence makes of the table: a creation retires the live enrollment of the device, activating an
  old enrollment retires the current one, refused operations change nothing. The lookups by
  serial, by device and by thumbprint return exactly the entries of the table, the lookup by device the live one,
  and the listing of a hardware identifier has each of its enrollments, oldest first.
\<close>

theorem enrollments_as_table:
  "let s = fold store_step ops NewStore; m = fold table_step ops Map.empty
   in (\<forall>k. GetBySerial s k = (case m k of None \<Rightarrow> Inl [Storage_ErrNotFound] | Some e \<Rightarrow> Inr e))
    \<and> (\<forall>d e. (Get_enrollment s d = Inr e) = (\<exists>k. m k = Some e \<and> live d e))
    \<and> (\<forall>t e. (GetByThumbprint s t = Inr e) = (\<exists>k. m k = Some e \<and> en_Thumbprint e = t))
    \<and> (\<exists>es. ListByHWDevID s (c # cs) = Inr es \<and> set es = {e. \<exists>k. m k = Some e \<and> en_HWDevID e = c # cs}
         \<and> sorted (map (\<lambda>e. (en_EnrolledAt e, en_Serial e)) es) \<and> distinct (map en_Serial es))"
proof -
  let ?s = "fold store_step ops NewStore" and ?m = "fold table_step ops Map.empty"
  have inv: "estore_inv ?s" and tab: "table_of ?s = ?m" using store_run_refines by blast+
  let ?es = "sortEnrollments (filter (\<lambda>e. en_HWDevID e = c # cs) (map snd (es_enrollments ?s)))"
  have l: "ListByHWDevID ?s (c # cs) = Inr ?es" by (simp add: ListByHWDevID_def)
  have "set ?es = {e. \<exists>k. ?m k = Some e \<and> en_HWDevID e = c # cs}"
    using es.list [OF inv, of "c # cs"] l tab by (simp add: inmem_store_def)
  moreover have "distinct (map en_Serial ?es)" by (rule listed_once [OF inv])
  moreover have "\<forall>d e. (Get_enrollment ?s d = Inr e) = (\<exists>k. ?m k = Some e \<and> live d e)"
    using es.get [OF inv] tab by (simp add: inmem_store_def)
  ultimately show ?thesis
    unfolding Let_def using l GetByThumbprint_spec [OF inv] tab
    by (simp add: GetBySerial_def stored_enrollment_def sortEnrollments_def)
qed

end
