(* ===== verification/Mdm_System.thy ===== *)
theory Mdm_System
  imports Enrollment_Store Mdm_Inmem
begin

text \<open>
  The management service over the enrollment store, as an application composes them: enrollments are
  recorded (\<open>storage.Recorder\<close>), ended (\<open>storage.Unenroll\<close>) and changed in one store, and every
  management request is authenticated by \<open>storage.MDMAuthenticator\<close> against the store as it is at
  that moment. What the engine assumes of an authenticator is here a fact about the store.
\<close>

record system =
  sy_store :: estore
  sy_world :: "(queue, memory_sessions) world"

definition store_auth :: "(string \<Rightarrow> string) \<Rightarrow> (identity \<Rightarrow> cert option list list \<Rightarrow> bool) option \<Rightarrow> estore \<Rightarrow> authenticator" where
  "store_auth sha1 policy s =
     \<lparr>au_Lookup = Lookup (Get_enrollment s) (Some (MDMCredential s)),
      au_TrustCertificate = (\<lambda>i chs. TrustCertificate sha1 policy (Some i) chs)\<rparr>"

text \<open>The configuration of a request with the store's authenticator.\<close>

abbreviation over_store :: "(string \<Rightarrow> string) \<Rightarrow> (identity \<Rightarrow> cert option list list \<Rightarrow> bool) option \<Rightarrow> estore
    \<Rightarrow> (queue, memory_sessions) config \<Rightarrow> (queue, memory_sessions) config" where
  "over_store sha1 policy s cfg \<equiv> cfg\<lparr>cfg_Auth := store_auth sha1 policy s\<rparr>"

section \<open>Runs\<close>

inductive running :: "(string \<Rightarrow> string) \<Rightarrow> (identity \<Rightarrow> cert option list list \<Rightarrow> bool) option \<Rightarrow> int \<Rightarrow> system \<Rightarrow> bool"
  for sha1 :: "string \<Rightarrow> string" and policy :: "(identity \<Rightarrow> cert option list list \<Rightarrow> bool) option" and N :: int where
  boot: "running sha1 policy N \<lparr>sy_store = NewStore, sy_world = boot_world\<rparr>"
| enroll: "running sha1 policy N sy \<Longrightarrow>
     running sha1 policy N (sy\<lparr>sy_store := fst (Record sha1 sink inmem_store (sy_store sy) eo)\<rparr>)"
| unenroll: "running sha1 policy N sy \<Longrightarrow>
     running sha1 policy N (sy\<lparr>sy_store := fst (Unenroll inmem_store (sy_store sy) k at)\<rparr>)"
| state: "running sha1 policy N sy \<Longrightarrow> running sha1 policy N (sy\<lparr>sy_store := store_step op (sy_store sy)\<rparr>)"
| certificate: "running sha1 policy N sy \<Longrightarrow>
     running sha1 policy N (sy\<lparr>sy_store := fst (PutCertificate (sy_store sy) co)\<rparr>)"
| revoke: "running sha1 policy N sy \<Longrightarrow> running sha1 policy N (sy\<lparr>sy_store := fst (Revoke (sy_store sy) k at)\<rparr>)"
| credential: "running sha1 policy N sy \<Longrightarrow>
     running sha1 policy N (sy\<lparr>sy_store := fst (PutMDMCredential (sy_store sy) c)\<rparr>)"
| request: "running sha1 policy N sy \<Longrightarrow> cfg_MaxRequestSize cfg = N \<Longrightarrow>
     running sha1 policy N (sy\<lparr>sy_world :=
       fst (handle_message (inmem (over_store sha1 policy (sy_store sy) cfg)) t req (sy_world sy))\<rparr>)"
| admin: "running sha1 policy N sy \<Longrightarrow>
     running sha1 policy N (sy\<lparr>sy_world := (sy_world sy)\<lparr>w_queue := qstep op (w_queue (sy_world sy))\<rparr>\<rparr>)"

section \<open>The store is the authority the engine needs\<close>

definition owner_of :: "string \<Rightarrow> estore \<Rightarrow> string \<Rightarrow> string" where
  "owner_of other s k = (case table_of s k of None \<Rightarrow> other | Some e \<Rightarrow> en_DeviceID e)"

definition agrees :: "(string \<Rightarrow> string) \<Rightarrow> estore \<Rightarrow> bool" where
  "agrees own s = (\<forall>k e. table_of s k = Some e \<longrightarrow> own k = en_DeviceID e)"

lemma agrees_owner_of: "agrees (owner_of other s) s"
  by (simp add: agrees_def owner_of_def)

lemma agrees_earlier: "agrees own s' \<Longrightarrow> keeps_bindings (table_of s) (table_of s') \<Longrightarrow> agrees own s"
  unfolding agrees_def keeps_bindings_def same_binding_def by metis

lemma store_get [simp]: "sto_Get inmem_store = Get_enrollment"
  by (simp add: inmem_store_def)

lemma lookup_spec:
  assumes "estore_inv s" "au_Lookup (store_auth sha1 policy s) d = Inr i"
  shows "\<exists>e. table_of s (id_EnrollmentKey i) = Some e \<and> live d e \<and> id_DeviceID i = d
    \<and> id_CertificateThumbprint i = en_Thumbprint e"
  using es.lookup_live [OF assms(1)] assms(2) by (simp add: store_auth_def)

lemma lookup_none:
  "estore_inv s \<Longrightarrow> (\<And>k e. table_of s k = Some e \<Longrightarrow> \<not> live d e) \<Longrightarrow>
   au_Lookup (store_auth sha1 policy s) d = Inl [Mdm_ErrUnenrolled]"
  using es.lookup_missing [of s d] by (simp add: store_auth_def)

lemma store_keys_owned:
  "estore_inv s \<Longrightarrow> agrees own s \<Longrightarrow> keys_owned own (store_auth sha1 policy s)"
  unfolding keys_owned_def agrees_def live_def by (metis lookup_spec live_def)

lemma credential_store [simp]:
  "estore_inv (fst (PutMDMCredential s c)) = estore_inv s" "table_of (fst (PutMDMCredential s c)) = table_of s"
  by (simp_all add: PutMDMCredential_def estore_inv_def)

text \<open>Every change of the store keeps it consistent and keeps the bindings.\<close>

lemma step_bindings: "keeps_bindings m (table_step op m)"
  by (cases op) (auto intro: spec_keeps_bindings)

lemma store_changes:
  assumes "estore_inv s"
  shows "estore_inv (fst (Record sha1 sink inmem_store s eo)) \<and> keeps_bindings (table_of s) (table_of (fst (Record sha1 sink inmem_store s eo)))"
    and "estore_inv (fst (Unenroll inmem_store s k at)) \<and> keeps_bindings (table_of s) (table_of (fst (Unenroll inmem_store s k at)))"
    and "estore_inv (store_step op s) \<and> keeps_bindings (table_of s) (table_of (store_step op s))"
    and "estore_inv (fst (PutCertificate s co)) \<and> keeps_bindings (table_of s) (table_of (fst (PutCertificate s co)))"
    and "estore_inv (fst (Revoke s k at)) \<and> keeps_bindings (table_of s) (table_of (fst (Revoke s k at)))"
    and "estore_inv (fst (PutMDMCredential s c)) \<and> keeps_bindings (table_of s) (table_of (fst (PutMDMCredential s c)))"
  using es.record_binds [OF assms prod.collapse [symmetric]] es.unenroll_ends(1,2) [OF assms prod.collapse [symmetric]]
    spec_keeps_bindings(2)
    store_step_refines [OF assms] step_bindings
    PutCertificate_keeps(1,2) [OF assms prod.collapse [symmetric]] Revoke_keeps(1,2) [OF assms prod.collapse [symmetric]] assms
  by simp_all

lemma running_store: "running sha1 policy N sy \<Longrightarrow> estore_inv (sy_store sy)"
  by (induction rule: running.induct) (simp_all add: NewStore_inv store_changes)

lemma agrees_before:
  assumes "estore_inv s"
  shows "agrees own (fst (Record sha1 sink inmem_store s eo)) \<Longrightarrow> agrees own s"
    and "agrees own (fst (Unenroll inmem_store s k at)) \<Longrightarrow> agrees own s"
    and "agrees own (store_step op s) \<Longrightarrow> agrees own s"
    and "agrees own (fst (PutCertificate s co)) \<Longrightarrow> agrees own s"
    and "agrees own (fst (Revoke s k at)) \<Longrightarrow> agrees own s"
    and "agrees own (fst (PutMDMCredential s c)) \<Longrightarrow> agrees own s"
  by (erule agrees_earlier, rule conjunct2, rule store_changes, rule assms)+

lemma running_served:
  "running sha1 policy N sy \<Longrightarrow> agrees own (sy_store sy) \<Longrightarrow> served own N (sy_world sy)"
proof (induction rule: running.induct)
  case boot
  then show ?case by (simp add: served.boot)
next
  case (request sy cfg t req)
  have "keys_owned own (cfg_Auth (over_store sha1 policy (sy_store sy) cfg))"
    using store_keys_owned [OF running_store [OF request.hyps(1)]] request.prems by simp
  then show ?case using served.request [OF request.IH, of "over_store sha1 policy (sy_store sy) cfg" t req] request by simp
next
  case (admin sy op)
  then show ?case by (simp add: served.admin)
next
  case (enroll sy sink eo)
  show ?case using enroll.IH [OF agrees_before(1) [OF running_store [OF enroll.hyps]]] enroll.prems by simp
next
  case (unenroll sy k at)
  show ?case using unenroll.IH [OF agrees_before(2) [OF running_store [OF unenroll.hyps]]] unenroll.prems by simp
next
  case (state sy op)
  show ?case using state.IH [OF agrees_before(3) [OF running_store [OF state.hyps]]] state.prems by simp
next
  case (certificate sy co)
  show ?case using certificate.IH [OF agrees_before(4) [OF running_store [OF certificate.hyps]]] certificate.prems by simp
next
  case (revoke sy k at)
  show ?case using revoke.IH [OF agrees_before(5) [OF running_store [OF revoke.hyps]]] revoke.prems by simp
next
  case (credential sy c)
  show ?case using credential.IH [OF agrees_before(6) [OF running_store [OF credential.hyps]]] credential.prems by simp
qed

lemma running_inv:
  "running sha1 policy N sy \<Longrightarrow> agrees own (sy_store sy) \<Longrightarrow> service_inv own N (sy_world sy)"
  by (rule served_inv) (rule running_served)

section \<open>Who is trusted\<close>

text \<open>The session a request continues was opened under the same enrollment.\<close>

lemma trusted_cases:
  assumes "trusted (inmem cfg) t req w"
  obtains (session) i s where "au_Lookup (cfg_Auth cfg) (req_device req) = Inr i"
      "stored (w_sessions w) (req_key req) = Some s" "ss_EnrollmentKey s = id_EnrollmentKey i"
      "ss_Authenticated s" "ss_AuthType s \<noteq> AuthCertificate"
  | (chain) i where "au_Lookup (cfg_Auth cfg) (req_device req) = Inr i"
      "au_TrustCertificate (cfg_Auth cfg) i (verifiedPeerChains t)"
  | (credential) i nonce where "au_Lookup (cfg_Auth cfg) (req_device req) = Inr i"
      "verifyCredential (cfg_Crypto cfg) i (h_Cred (msg_Header req)) nonce"
proof -
  obtain i w1 ls where i: "au_Lookup (cfg_Auth cfg) (req_device req) = Inr i"
    and sf: "session_for (inmem cfg) req i t w = (w1, Inr ls)"
    and au: "snd (authenticate (inmem cfg) req i t (start (inmem cfg) req ls w1)) = Inr authTrusted"
  proof -
    obtain i where i: "au_Lookup (cfg_Auth cfg) (req_device req) = Inr i"
      using assms by (cases "au_Lookup (cfg_Auth cfg) (req_device req)") (simp_all add: trusted_def)
    obtain w1 r where sf: "session_for (inmem cfg) req i t w = (w1, r)" by fastforce
    then obtain ls where "r = Inr ls" using assms i by (cases r) (simp_all add: trusted_def)
    then show thesis using that i sf assms by (simp add: trusted_def)
  qed
  have crypto: "cfg_Crypto (inmem cfg) = cfg_Crypto cfg" by (simp add: inmem_def)
  consider "ss_Authenticated (snd ls)" "ss_AuthType (snd ls) \<noteq> AuthCertificate"
    | "au_TrustCertificate (cfg_Auth cfg) i (verifiedPeerChains t)"
    | nonce where "verifyCredential (cfg_Crypto cfg) i (h_Cred (msg_Header req)) nonce"
    using au unfolding authenticate_def Let_def start_fields inmem_fields crypto by (auto split: if_splits)
  then show thesis
  proof cases
    case 1
    from sf show thesis
    proof (cases rule: im.session_for_cases)
      case (refused err)
      then show thesis by simp
    next
      case (fresh sess)
      then show thesis using 1 by (simp add: new_session_def zero_session_def)
    next
      case (continued s)
      then show thesis using 1 session [OF i] by simp
    qed
  qed (use chain credential i in blast)+
qed

lemma leaf_matchesE:
  assumes "leaf_matches sha1 i chain"
  obtains c rest where "chain = Some c # rest" "serial_String (ct_SerialNumber c) = id_EnrollmentKey i"
    "Thumbprint sha1 (ct_Raw c) = id_CertificateThumbprint i"
proof (cases chain)
  case (Cons x rest)
  then show thesis using assms that by (cases x) (auto simp: leaf_matches_def)
qed (use assms in \<open>simp add: leaf_matches_def\<close>)

lemma get_error: "Get_enrollment s d = Inl err \<Longrightarrow> err = [Storage_ErrNotFound]"
  by (auto simp: Get_enrollment_def stored_enrollment_def split: option.splits)

lemma same_get:
  assumes "estore_inv s" "estore_inv s'"
    and "\<And>k e. live d e \<Longrightarrow> (table_of s' k = Some e) = (table_of s k = Some e)"
  shows "Get_enrollment s' d = Get_enrollment s d"
proof -
  have "(Get_enrollment s' d = Inr e) = (Get_enrollment s d = Inr e)" for e
    using es.get [OF assms(1), of d e] es.get [OF assms(2), of d e] assms(3) by auto
  then show ?thesis using get_error [of s d] get_error [of s' d]
    by (cases "Get_enrollment s d"; cases "Get_enrollment s' d") auto
qed

lemma sessions_enrolled:
  assumes "running sha1 policy N sy" "stored (w_sessions (sy_world sy)) k = Some s"
  shows "\<exists>e. table_of (sy_store sy) (ss_EnrollmentKey s) = Some e \<and> en_DeviceID e = ss_DeviceID s"
proof -
  have own: "owner_of other (sy_store sy) (ss_EnrollmentKey s) = ss_DeviceID s" for other
    using running_inv [OF assms(1) agrees_owner_of, of other] assms(2) by (auto simp: world_inv_def stored_ok_def)
  show ?thesis
  proof (cases "table_of (sy_store sy) (ss_EnrollmentKey s)")
    case None
    then have "''a'' = ss_DeviceID s" "''b'' = ss_DeviceID s"
      using own [of "''a''"] own [of "''b''"] by (simp_all add: owner_of_def)
    then have "''a'' = ''b''" by metis
    then show ?thesis by simp
  next
    case (Some e)
    then show ?thesis using own [of "[]"] by (simp add: owner_of_def)
  qed
qed

section \<open>A sample system\<close>

definition sample_issued :: issued where
  "sample_issued = \<lparr>
     is_Request = Some \<lparr>ir_Context = \<lparr>cx_DeviceID = ''dev'', cx_HWDevID = ''hw'', cx_EnrollmentType = ''Full'', cx_others = []\<rparr>,
       ir_UPN = ''u@x''\<rparr>,
     is_Certificate = Some \<lparr>ct_Raw = ''c'', ct_SerialNumber = Some 9, xc_Subject = ''CN=dev'', xc_NotBefore = 1, xc_NotAfter = 99\<rparr>,
     is_EnrolledAt = 3\<rparr>"

definition sample_store :: estore where
  "sample_store = fst (Record id None inmem_store NewStore (Some sample_issued))"

definition sample_system :: system where
  "sample_system = \<lparr>sy_store = sample_store, sy_world = boot_world\<rparr>"

definition sample_leaf :: "transport option" where
  "sample_leaf = Some (zero_transport\<lparr>t_Certificates := [Some \<lparr>ct_Raw = ''c'', ct_SerialNumber = Some 9\<rparr>],
     t_VerifiedChains := [[Some \<lparr>ct_Raw = ''c'', ct_SerialNumber = Some 9\<rparr>]]\<rparr>)"

lemma sample_running: "running id None 1000 sample_system"
  using running.enroll [OF running.boot, of id None 1000 None "Some sample_issued"]
  by (simp add: sample_system_def sample_store_def)

lemma sample_live: "\<exists>e. table_of sample_store ''9'' = Some e \<and> live ''dev'' e"
proof -
  have "(case table_of sample_store ''9'' of None \<Rightarrow> False | Some e \<Rightarrow> live ''dev'' e) = True" by code_simp
  then show ?thesis by (auto split: option.splits)
qed

section \<open>Properties\<close>



text \<open>
  C5. Unenrollment takes effect at once and in full: when the live enrollment of a device has been
  ended, every further request of the device is refused as unenrolled and changes nothing, in
  every configuration and whatever state the service is in, sessions of the device that are still
  stored included. When the operation reports success the certificate is revoked as well.
\<close>

theorem unenrolled_refused:
  assumes "running sha1 policy N sy" "table_of (sy_store sy) k = Some e" "live (req_device req) e"
    and "Unenroll inmem_store (sy_store sy) k at = (s', r)" "Validate req = []"
  shows "handle_message (inmem (over_store sha1 policy s' cfg)) t req w = (w, Inl [Mdm_ErrUnenrolled])
    \<and> (r = Inr () \<longrightarrow> (\<exists>c. cert_table s' k = Some c \<and> ce_Revoked c))"
proof -
  note st = running_store [OF assms(1)]
  have "au_Lookup (store_auth sha1 policy s') (req_device req) = Inl [Mdm_ErrUnenrolled]"
    by (rule lookup_none) (use es.unenroll_ends(1) [OF st assms(4)] es.unenroll_leaves_none [OF st assms(2-4)] in auto)
  then show ?thesis
    using assms(5) es.unenroll_ends(3) [OF st assms(4)] by (simp add: handle_message_def req_device_def)
qed

theorem unenrolled_refused_witness:
  "handle_message (inmem (over_store id None (fst (Unenroll inmem_store sample_store ''9'' 50)) sample_cfg)) sample_leaf sample_msg2 sample_world
     = (sample_world, Inl [Mdm_ErrUnenrolled])"
proof -
  obtain e where e: "table_of (sy_store sample_system) ''9'' = Some e" "live (req_device sample_msg2) e"
    using sample_live by (auto simp: sample_system_def sample_msg2_def sample_request_def req_device_def zero_location_def)
  from unenrolled_refused [OF sample_running e prod.collapse [symmetric] sample_valid, of 50 sample_cfg]
  show ?thesis by (simp add: sample_system_def)
qed



text \<open>
  C38. A recorded enrollment takes over its device, and only its device: afterwards the device
  is looked up under the serial and thumbprint of the new certificate, every enrollment it had before
  is kept but no longer live, and every other device is looked up as before.
\<close>

theorem record_takes_over:
  assumes "running sha1 policy N sy" "Record sha1 sink inmem_store (sy_store sy) (Some is) = (s', Inr ())"
    and "is_Certificate is = Some c" "is_Request is = Some q"
  shows "Get_enrollment s' (cx_DeviceID (ir_Context q)) = Inr ((new_record sha1 c q (is_EnrolledAt is))
      \<lparr>en_State := StateActive, en_UpdatedAt := is_EnrolledAt is\<rparr>)
    \<and> (\<forall>k e. table_of (sy_store sy) k = Some e \<longrightarrow>
         (\<exists>e'. table_of s' k = Some e' \<and> same_binding e e' \<and> \<not> live (cx_DeviceID (ir_Context q)) e'))
    \<and> (\<forall>d. d \<noteq> cx_DeviceID (ir_Context q) \<longrightarrow> Get_enrollment s' d = Get_enrollment (sy_store sy) d)"
proof -
  note st = running_store [OF assms(1)]
  let ?rec = "new_record sha1 c q (is_EnrolledAt is)" and ?d = "cx_DeviceID (ir_Context q)"
  have d: "en_DeviceID ?rec = ?d" by (simp add: new_record_def)
  obtain inv: "estore_inv s'" and fr: "spec_fresh ?rec (table_of (sy_store sy))"
    and tab: "table_of s' = spec_Create ?rec (table_of (sy_store sy))"
    by (rule es.record_cases [OF st assms(2)]) (use assms(3,4) in auto)
  have "Get_enrollment s' ?d = Inr (?rec\<lparr>en_State := StateActive, en_UpdatedAt := is_EnrolledAt is\<rparr>)"
    using es.get [OF inv, of ?d] d unfolding tab
    by (auto simp: spec_Create_def live_def new_record_def)
  moreover have "\<exists>e'. table_of s' k = Some e' \<and> same_binding e e' \<and> \<not> live ?d e'"
    if "table_of (sy_store sy) k = Some e" for k e
    using that fr d unfolding tab
    by (auto simp: spec_fresh_def spec_Create_def spec_retire_def same_binding_def)
  moreover have "Get_enrollment s' d' = Get_enrollment (sy_store sy) d'" if "d' \<noteq> ?d" for d'
  proof (rule same_get [OF st inv])
    fix k e assume "live d' e"
    then show "(table_of s' k = Some e) = (table_of (sy_store sy) k = Some e)"
      using that fr d unfolding tab
      by (auto simp: spec_fresh_def spec_Create_def spec_retire_def live_def split: if_splits)
  qed
  ultimately show ?thesis by blast
qed

definition sample_reissued :: issued where
  "sample_reissued = sample_issued\<lparr>is_Certificate :=
     Some \<lparr>ct_Raw = ''d'', ct_SerialNumber = Some 10, xc_Subject = ''CN=dev'', xc_NotBefore = 1, xc_NotAfter = 99\<rparr>\<rparr>"

theorem record_takes_over_witness:
  "\<exists>s' e. Record id None inmem_store sample_store (Some sample_reissued) = (s', Inr ())
     \<and> Get_enrollment s' ''dev'' = Inr e \<and> en_Serial e = ''10''"
proof -
  have "isl (snd (Record id None inmem_store sample_store (Some sample_reissued))) = False" by code_simp
  then obtain s' where run: "Record id None inmem_store (sy_store sample_system) (Some sample_reissued) = (s', Inr ())"
    by (cases "Record id None inmem_store sample_store (Some sample_reissued)"; cases "snd (Record id None inmem_store sample_store (Some sample_reissued))")
      (auto simp: sample_system_def)
  obtain c q where c: "is_Certificate sample_reissued = Some c" "ct_SerialNumber c = Some 10"
    and q: "is_Request sample_reissued = Some q" "cx_DeviceID (ir_Context q) = ''dev''"
    by (simp add: sample_reissued_def sample_issued_def)
  have "Itoa 10 = ''10''" by code_simp
  with record_takes_over [OF sample_running run c(1) q(1)] run c(2) q(2) show ?thesis
    by (simp add: sample_system_def new_record_def serial_String_def)
qed

text \<open>A conflict sink that refuses comes too late: the enrollment is stored and live all the same.\<close>

lemma sink_error_keeps_enrollment:
  "(case Record id (Some (\<lambda>_. Inl [Plain ''refused''])) inmem_store sample_store
        (Some (sample_reissued\<lparr>is_Request := Some \<lparr>ir_Context = \<lparr>cx_DeviceID = ''dev2'', cx_HWDevID = ''hw'',
          cx_EnrollmentType = ''Full'', cx_others = []\<rparr>, ir_UPN = ''u@x''\<rparr>\<rparr>)) of
      (s', r) \<Rightarrow> isl r \<and> \<not> isl (Get_enrollment s' ''dev2'')) = True"
  by code_simp

end
