(* ===== verification/Ratelimit.thy ===== *)
theory Ratelimit
  imports State_Store "HOL-Library.Product_Lexorder"
begin

text \<open>
  Rate limiting over the keyed state store, \<open>ratelimit/ratelimit.go\<close> and \<open>ratelimit/http.go\<close>. A bucket
  is one record that holds the theoretical arrival time of the next request, in microseconds since
  the Unix epoch; a check consumes all its buckets in one transaction or none.

  \<open>sha256\<close> is \<open>sha256.Sum256\<close>. \<open>ctx p n\<close> is \<open>ctx.Err()\<close> at the n-th operation on the store in phase p of a check: the start, the reads, the listing, the deletions, the writes, the commit.
\<close>

section \<open>Time and bytes\<close>

definition Microsecond :: duration where "Microsecond = 1000"
definition Second :: duration where "Second = 10 ^ 9"
definition Day :: duration where "Day = 24 * 3600 * 10 ^ 9"

text \<open>The Unix epoch, counted from the zero time.\<close>

definition unix_epoch :: time where "unix_epoch = 62135596800 * 10 ^ 9"

definition Truncate_us :: "time \<Rightarrow> time" where "Truncate_us t = t - t mod Microsecond"
definition UnixMicro :: "time \<Rightarrow> int" where "UnixMicro t = wrap64 ((t - unix_epoch) div 1000)"
definition time_UnixMicro :: "int \<Rightarrow> time" where "time_UnixMicro n = unix_epoch + n * 1000"

text \<open>\<open>binary.BigEndian\<close>.\<close>

fun be_bytes :: "nat \<Rightarrow> int \<Rightarrow> string" where
  "be_bytes 0 n = []"
| "be_bytes (Suc k) n = be_bytes k (n div 256) @ [char_of (n mod 256)]"

definition PutUint64 :: "int \<Rightarrow> string" where "PutUint64 n = be_bytes 8 (n mod 2 ^ 64)"
definition Uint64 :: "string \<Rightarrow> int" where "Uint64 b = foldl (\<lambda>a c. a * 256 + of_char c) 0 b"

section \<open>Buckets\<close>

record bucket =
  bu_Key :: string
  bu_Interval :: duration
  bu_Burst :: int

definition bucket_Validate :: "bucket \<Rightarrow> unit result" where
  "bucket_Validate b =
     (if bu_Key b = [] \<or> bu_Interval b < Microsecond \<or> bu_Interval b mod Microsecond \<noteq> 0
         \<or> Day < bu_Interval b \<or> bu_Burst b < 1 \<or> 1000000 < bu_Burst b \<or> 30 * Day div bu_Interval b < bu_Burst b
      then Inl [Ratelimit_ErrInvalid] else Inr ())"

record decision =
  de_Allowed :: bool
  de_RetryAfter :: duration

record limiter =
  li_MaxEntries :: int
  li_Namespace :: string

definition hex_lower :: "int \<Rightarrow> char" where
  "hex_lower n = (if n < 10 then char_of (48 + n) else char_of (87 + n))"

definition rl_key :: "(string \<Rightarrow> string) \<Rightarrow> string \<Rightarrow> string" where
  "rl_key sha256 s = concat (map (\<lambda>c. [hex_lower (of_char c div 16), hex_lower (of_char c mod 16)]) (sha256 s))"

definition rl_prefix :: "(string \<Rightarrow> string) \<Rightarrow> limiter \<Rightarrow> string" where
  "rl_prefix sha256 l = ''rate/'' @ rl_key sha256 (li_Namespace l) @ ''/''"

definition bucket_key :: "(string \<Rightarrow> string) \<Rightarrow> limiter \<Rightarrow> bucket \<Rightarrow> string" where
  "bucket_key sha256 l b = rl_prefix sha256 l @ rl_key sha256 (bu_Key b)"

section \<open>Check\<close>

text \<open>The loop that validates the buckets and collects their keys, each of which may occur once.\<close>

fun collect_keys :: "(string \<Rightarrow> string) \<Rightarrow> limiter \<Rightarrow> string list \<Rightarrow> bucket list \<Rightarrow> string list result" where
  "collect_keys sha256 l seen [] = Inr []"
| "collect_keys sha256 l seen (b # bs) =
     rbind (bucket_Validate b) (\<lambda>_.
       let k = bucket_key sha256 l b
       in if k \<in> set seen then Inl [Ratelimit_ErrInvalid]
          else rbind (collect_keys sha256 l (k # seen) bs) (\<lambda>ks. Inr (k # ks)))"

text \<open>The arrival time on record, and whether there is a record.\<close>

definition arrival :: "tx \<Rightarrow> error option \<Rightarrow> time \<Rightarrow> string \<Rightarrow> (time \<times> bool) result" where
  "arrival t ctx now k =
     (case tx_Get t ctx k of
        Inl e \<Rightarrow> if errors_is e State_ErrNotFound then Inr (now, True) else Inl e
      | Inr r \<Rightarrow>
          if length (sr_Value r) \<noteq> 8 then Inl [Plain ''ratelimit: corrupt state'']
          else Inr (time_UnixMicro (wrap64 (Uint64 (sr_Value r))), False))"

definition allow_at :: "time \<Rightarrow> bucket \<Rightarrow> time" where
  "allow_at tat b = tat + wrap64 (- (bu_Burst b - 1) * bu_Interval b)"

definition next_arrival :: "time \<Rightarrow> time \<Rightarrow> bucket \<Rightarrow> time" where
  "next_arrival now tat b = (if tat < now then now else tat) + bu_Interval b"

definition arrival_record :: "string \<Rightarrow> time \<Rightarrow> srecord" where
  "arrival_record k nxt = \<lparr>sr_Key = k, sr_Value = PutUint64 (UnixMicro nxt), sr_ExpiresAt = nxt\<rparr>"

fun account :: "(nat \<Rightarrow> nat \<Rightarrow> error option) \<Rightarrow> tx \<Rightarrow> time \<Rightarrow> nat \<Rightarrow> (string \<times> bucket) list \<Rightarrow> decision \<times> int
    \<Rightarrow> ((decision \<times> int) \<times> srecord list) result" where
  "account ctx t now i [] (d, newKeys) = Inr ((d, newKeys), [])"
| "account ctx t now i ((k, b) # kbs) (d, newKeys) =
     rbind (arrival t (ctx 1 i) now k) (\<lambda>(tat, fresh).
       let d' = (if now < allow_at tat b
                 then \<lparr>de_Allowed = False, de_RetryAfter = max (de_RetryAfter d) (time_Sub (allow_at tat b) now)\<rparr> else d)
       in rbind (account ctx t now (i + 1) kbs (d', if fresh then newKeys + 1 else newKeys)) (\<lambda>(s, pending).
            Inr (s, arrival_record k (next_arrival now tat b) # pending)))"

text \<open>The records of the pool that have expired make room; the others count.\<close>

fun reclaim :: "(nat \<Rightarrow> nat \<Rightarrow> error option) \<Rightarrow> time \<Rightarrow> string list \<Rightarrow> nat \<Rightarrow> srecord list \<Rightarrow> tx \<times> int \<Rightarrow> (tx \<times> int) result" where
  "reclaim ctx now seen i [] (t, n) = Inr (t, n)"
| "reclaim ctx now seen i (r # rs) (t, n) =
     (if \<not> IsZero (sr_ExpiresAt r) \<and> \<not> now < sr_ExpiresAt r \<and> sr_Key r \<notin> set seen
      then rbind (tx_Delete t (ctx 3 i) (sr_Key r)) (\<lambda>t'. reclaim ctx now seen (i + 1) rs (t', n))
      else reclaim ctx now seen (i + 1) rs (t, n + 1))"

fun put_all :: "(nat \<Rightarrow> nat \<Rightarrow> error option) \<Rightarrow> nat \<Rightarrow> srecord list \<Rightarrow> tx \<Rightarrow> tx result" where
  "put_all ctx i [] t = Inr t"
| "put_all ctx i (r # rs) t = rbind (tx_Put t (ctx 4 i) r) (put_all ctx (i + 1) rs)"

definition make_room :: "(nat \<Rightarrow> nat \<Rightarrow> error option) \<Rightarrow> time \<Rightarrow> string \<Rightarrow> int \<Rightarrow> string list \<Rightarrow> int \<Rightarrow> tx \<Rightarrow> tx result" where
  "make_room ctx now pre limit seen newKeys t =
     (if newKeys > 0
      then rbind (tx_List t (ctx 2 0) pre [] limit) (\<lambda>records.
             rbind (reclaim ctx now seen 0 records (t, 0)) (\<lambda>(t', live).
               if live + newKeys > limit then Inl [Ratelimit_ErrCapacity] else Inr t'))
      else Inr t)"

text \<open>The callback of the update: the transaction after its writes, and the decision.\<close>

definition check_tx :: "(nat \<Rightarrow> nat \<Rightarrow> error option) \<Rightarrow> string \<Rightarrow> int \<Rightarrow> (string \<times> bucket) list \<Rightarrow> tx \<Rightarrow> (tx \<times> decision) result" where
  "check_tx ctx pre limit kbs t =
     (let now = Truncate_us (tx_now t)
      in rbind (account ctx t now 0 kbs (\<lparr>de_Allowed = True, de_RetryAfter = 0\<rparr>, 0)) (\<lambda>((d, newKeys), pending).
           if \<not> de_Allowed d then Inr (t, d)
           else rbind (make_room ctx now pre limit (map fst kbs) newKeys t) (\<lambda>t'.
                  rbind (put_all ctx 0 pending t') (\<lambda>t''. Inr (t'', d)))))"

definition entry_limit :: "limiter \<Rightarrow> int" where
  "entry_limit l = (if li_MaxEntries l = 0 then 4096 else li_MaxEntries l)"

definition Check :: "(string \<Rightarrow> string) \<Rightarrow> limiter \<Rightarrow> (nat \<Rightarrow> nat \<Rightarrow> error option) \<Rightarrow> time \<Rightarrow> records \<Rightarrow> bucket list
    \<Rightarrow> records \<times> decision result" where
  "Check sha256 l ctx now rs buckets =
     (if buckets = [] \<or> length buckets > 32 then (rs, Inl [Ratelimit_ErrInvalid])
      else if entry_limit l < 1 \<or> entry_limit l > 10000 then (rs, Inl [Ratelimit_ErrInvalid])
      else case collect_keys sha256 l [] buckets of
          Inl e \<Rightarrow> (rs, Inl e)
        | Inr ks \<Rightarrow>
            let pre = rl_prefix sha256 l;
                f = check_tx ctx pre (entry_limit l) (zip ks buckets)
            in case mem_Update rs now (ctx 0 0) (ctx 5 0) ((pre @ ''capacity'') # ks) (Some (\<lambda>t. map_sum id fst (f t))) of
                 (rs', Inl e) \<Rightarrow> (rs', Inl (Ratelimit_ErrUnavailable # e))
               | (rs', Inr _) \<Rightarrow> (rs', map_sum id snd (f (new_tx rs now))))"

section \<open>HTTP\<close>

text \<open>
  \<open>PeerKey\<close>. The address type of \<open>net/netip\<close> is a type parameter with its operations: \<open>host\<close> is the host of
  the socket peer as \<open>SplitHostPort\<close> or the raw address gives it, \<open>parse\<close> is \<open>ParseAddr\<close> followed by
  \<open>Unmap\<close>, \<open>trusted\<close> says whether a trusted prefix contains the address, \<open>str\<close> prints it.
\<close>

fun walk :: "(string \<Rightarrow> 'a option) \<Rightarrow> ('a \<Rightarrow> bool) \<Rightarrow> 'a \<Rightarrow> 'a \<Rightarrow> string list \<Rightarrow> 'a" where
  "walk parse trusted ip peer [] = peer"
| "walk parse trusted ip peer (x # xs) =
     (case parse (TrimSpace x) of None \<Rightarrow> ip
      | Some a \<Rightarrow> if \<not> trusted a then a else walk parse trusted ip a xs)"

definition PeerKey :: "(string \<Rightarrow> 'a option) \<Rightarrow> ('a \<Rightarrow> bool) \<Rightarrow> ('a \<Rightarrow> string) \<Rightarrow> string \<Rightarrow> string \<Rightarrow> string" where
  "PeerKey parse trusted str host forwarded =
     (case parse host of
        None \<Rightarrow> ''unknown''
      | Some ip \<Rightarrow>
          if \<not> trusted ip then str ip
          else let chn = Split CHR '','' forwarded
               in if length chn > 32 then str ip else str (walk parse trusted ip ip (rev chn)))"

text \<open>\<open>Middleware\<close>: pass the request on, or answer with a status and perhaps \<open>Retry-After\<close>.\<close>

datatype admission = Pass | Refuse int "string option"

definition admit :: "decision result \<Rightarrow> admission" where
  "admit r =
     (case r of
        Inl e \<Rightarrow> Refuse 503 None
      | Inr d \<Rightarrow> if \<not> de_Allowed d
                then Refuse 429 (Some (Itoa (max 1 ((de_RetryAfter d + Second - 1) div Second)))) else Pass)"

definition Middleware :: "((bucket list \<Rightarrow> 's \<Rightarrow> 's \<times> decision result) option) \<Rightarrow> ('r \<Rightarrow> bucket list) option \<Rightarrow> 'r \<Rightarrow> 's \<Rightarrow> 's \<times> admission" where
  "Middleware limiter buckets req s =
     (case (limiter, buckets) of
        (Some check, Some f) \<Rightarrow>
          if f req = [] then (s, Pass) else (case check (f req) s of (s', r) \<Rightarrow> (s', admit r))
      | _ \<Rightarrow> (s, Pass))"

section \<open>Encoding\<close>

lemma Uint64_be_bytes: "0 \<le> n \<Longrightarrow> n < 256 ^ k \<Longrightarrow> Uint64 (be_bytes k n) = n"
proof (induction k arbitrary: n)
  case (Suc k)
  then have "Uint64 (be_bytes k (n div 256)) = n div 256" by simp
  then show ?case by (simp add: Uint64_def)
qed (simp add: Uint64_def)

lemma length_be_bytes [simp]: "length (be_bytes k n) = k"
  by (induction k arbitrary: n) simp_all

lemma Uint64_PutUint64: "in_int64 n \<Longrightarrow> wrap64 (Uint64 (PutUint64 n)) = n"
proof -
  assume n: "in_int64 n"
  have "Uint64 (PutUint64 n) = n mod 2 ^ 64" unfolding PutUint64_def by (rule Uint64_be_bytes) simp_all
  then have "wrap64 (Uint64 (PutUint64 n)) = wrap64 n" by (simp add: wrap64_def mod_add_left_eq)
  with n show ?thesis by simp
qed

text \<open>Times the records can hold: whole microseconds from the epoch on, in the range of the encoding.\<close>

definition representable :: "time \<Rightarrow> bool" where
  "representable t = (t mod 1000 = 0 \<and> in_int64 ((t - unix_epoch) div 1000))"

lemma length_PutUint64 [simp]: "length (PutUint64 n) = 8"
  by (simp add: PutUint64_def)

lemma epoch_mod: "unix_epoch mod 1000 = 0"
  by (simp add: unix_epoch_def)

lemma stored_time:
  assumes "representable t"
  shows "time_UnixMicro (wrap64 (Uint64 (PutUint64 (UnixMicro t)))) = t"
proof -
  have "(t - unix_epoch) mod 1000 = 0" using assms epoch_mod by (simp add: representable_def mod_diff_eq [symmetric])
  then have "(t - unix_epoch) div 1000 * 1000 = t - unix_epoch" by (metis add.right_neutral div_mult_mod_eq)
  then show ?thesis
    using assms by (simp add: representable_def UnixMicro_def Uint64_PutUint64 time_UnixMicro_def)
qed

section \<open>What a check does to the records\<close>

lemma collect_keys_ok:
  "collect_keys sha256 l seen bs = Inr ks \<Longrightarrow>
     ks = map (bucket_key sha256 l) bs \<and> distinct ks \<and> set ks \<inter> set seen = {} \<and> (\<forall>b \<in> set bs. bucket_Validate b = Inr ())"
proof (induction bs arbitrary: seen ks)
  case (Cons b bs)
  then show ?case by (fastforce simp: Let_def split: if_splits)
qed simp

text \<open>A context reports its own end, never a missing record.\<close>

definition ctx_ok :: "(nat \<Rightarrow> nat \<Rightarrow> error option) \<Rightarrow> bool" where
  "ctx_ok ctx = (\<forall>p i e. ctx p i = Some e \<longrightarrow> \<not> errors_is e State_ErrNotFound)"

definition arrival_of :: "tx \<Rightarrow> time \<Rightarrow> string \<Rightarrow> time" where
  "arrival_of t now k =
     (case tx_view t k of None \<Rightarrow> now | Some r \<Rightarrow> time_UnixMicro (wrap64 (Uint64 (sr_Value r))))"

lemma arrival_ok:
  "arrival t (ctx p i) now k = Inr (tat, fresh) \<Longrightarrow> ctx_ok ctx \<Longrightarrow> tat = arrival_of t now k \<and> fresh = (tx_view t k = None)"
  by (cases "ctx p i")
    (auto simp: arrival_def arrival_of_def tx_Get_view ctx_ok_def errors_is_def tx_Get_def [of _ "Some _"] split: if_splits option.splits sum.splits)

lemma account_ok:
  assumes "account ctx t now i kbs (d, n) = Inr ((d', n'), ps)" "ctx_ok ctx"
  shows "ps = map (\<lambda>(k, b). arrival_record k (next_arrival now (arrival_of t now k) b)) kbs
    \<and> de_Allowed d' = (de_Allowed d \<and> (\<forall>(k, b) \<in> set kbs. allow_at (arrival_of t now k) b \<le> now))
    \<and> n' = n + int (length (filter (\<lambda>(k, b). tx_view t k = None) kbs))"
  using assms(1)
proof (induction kbs arbitrary: i d n ps)
  case (Cons kb kbs)
  obtain k b where kb: "kb = (k, b)" by (cases kb)
  let ?tat = "arrival_of t now k"
  obtain tat fresh where a: "arrival t (ctx 1 i) now k = Inr (tat, fresh)"
    using Cons.prems by (auto simp: kb)
  note tat = arrival_ok [OF a assms(2)]
  define d1 where "d1 = (if now < allow_at ?tat b
      then \<lparr>de_Allowed = False, de_RetryAfter = max (de_RetryAfter d) (time_Sub (allow_at ?tat b) now)\<rparr> else d)"
  obtain ps' where run: "account ctx t now (i + 1) kbs (d1, if fresh then n + 1 else n) = Inr ((d', n'), ps')"
    and ps: "ps = arrival_record k (next_arrival now ?tat b) # ps'"
    using Cons.prems tat unfolding kb account.simps a d1_def by (auto simp: Let_def)
  have "de_Allowed d1 = (de_Allowed d \<and> allow_at ?tat b \<le> now)" by (auto simp: d1_def)
  with Cons.IH [OF run] tat show ?case by (auto simp: kb ps)
qed simp

lemma reclaim_ok:
  "reclaim ctx now seen i rs (t, n) = Inr (t', n') \<Longrightarrow> tx_inv t \<Longrightarrow>
     tx_inv t' \<and> tx_records t' = tx_records t
     \<and> (\<forall>k. tx_view t' k = tx_view t k \<or> (tx_view t' k = None \<and> k \<notin> set seen
          \<and> (\<exists>r \<in> set rs. sr_Key r = k \<and> \<not> IsZero (sr_ExpiresAt r) \<and> sr_ExpiresAt r \<le> now)))"
proof (induction rs arbitrary: i t n)
  case (Cons r rs)
  show ?case
  proof (cases "\<not> IsZero (sr_ExpiresAt r) \<and> \<not> now < sr_ExpiresAt r \<and> sr_Key r \<notin> set seen")
    case True
    then obtain t1 where d: "tx_Delete t (ctx 3 i) (sr_Key r) = Inr t1" and run: "reclaim ctx now seen (i + 1) rs (t1, n) = Inr (t', n')"
      using Cons.prems(1) by auto
    have "tx_Delete t None (sr_Key r) = Inr t1" using d by (cases "ctx 3 i") (simp_all add: tx_Delete_def)
    then have t1: "tx_inv t1" "tx_records t1 = tx_records t" "tx_view t1 = (tx_view t)(sr_Key r := None)"
      using tx_Delete_view Cons.prems(2) by blast+
    from Cons.IH [OF run t1(1)] True show ?thesis unfolding t1 by (auto split: if_splits)
  next
    case False
    then show ?thesis using Cons.IH [of "i + 1" t "n + 1"] Cons.prems by (auto split: if_splits)
  qed
qed simp

lemma put_all_ok:
  "put_all ctx i rs t = Inr t' \<Longrightarrow> tx_inv t \<Longrightarrow>
     tx_inv t' \<and> tx_records t' = tx_records t \<and> tx_view t' = fold (\<lambda>r m. m(sr_Key r \<mapsto> r)) rs (tx_view t)"
proof (induction rs arbitrary: i t)
  case (Cons r rs)
  then obtain t1 where p: "tx_Put t (ctx 4 i) r = Inr t1" and run: "put_all ctx (i + 1) rs t1 = Inr t'" by auto
  have "tx_Put t None r = Inr t1" using p by (cases "ctx 4 i") (simp_all add: tx_Put_def)
  then show ?case using tx_Put_view Cons.IH [OF run] Cons.prems(2) by (simp del: fun_upd_apply)
qed simp

lemma fold_records:
  "distinct (map fst kbs) \<Longrightarrow>
   fold (\<lambda>r m. m(sr_Key r \<mapsto> r)) (map (\<lambda>(k, b). arrival_record k (g k b)) kbs) m k =
     (case map_of kbs k of None \<Rightarrow> m k | Some b \<Rightarrow> Some ((\<lambda>(k, b). arrival_record k (g k b)) (k, b)))"
proof (induction kbs arbitrary: m)
  case (Cons kb kbs)
  obtain k' b where kb: "kb = (k', b)" by (cases kb)
  have "map_of kbs k' = None" using Cons.prems by (simp add: kb map_of_eq_None_iff)
  then show ?case using Cons by (simp add: kb arrival_record_def split: option.split)
qed simp

lemma tx_List_view:
  assumes "tx_List t c pre after limit = Inr rs" "tx_inv t" "r \<in> set rs"
  shows "tx_view t (sr_Key r) = Some r"
proof -
  have c: "c = None" using assms(1) by (cases c) (simp_all add: tx_List_def)
  have "\<forall>k \<in> set (take (nat limit) (sort (filter (\<lambda>k. HasPrefix k pre \<and> after < k) (tx_live t)))). tx_view t k \<noteq> None"
    using live_iff [of _ t] by (auto dest: in_set_takeD)
  from get_all_view [OF assms(2) this] assms(1,3) c
  obtain k where "tx_view t k = Some r"
    using \<open>\<forall>k \<in> set _. tx_view t k \<noteq> None\<close> by (auto simp: tx_List_def split: if_splits)
  then show ?thesis using tx_view_key [OF assms(2)] by blast
qed

lemma make_room_ok:
  assumes "make_room ctx now pre limit seen n t = Inr t'" "tx_inv t"
  shows "tx_inv t' \<and> tx_records t' = tx_records t
     \<and> (\<forall>k. tx_view t' k = tx_view t k \<or> (tx_view t' k = None \<and> k \<notin> set seen
          \<and> (\<exists>r. tx_view t k = Some r \<and> \<not> IsZero (sr_ExpiresAt r) \<and> sr_ExpiresAt r \<le> now)))"
proof (cases "n > 0")
  case True
  then obtain rs m where l: "tx_List t (ctx 2 0) pre [] limit = Inr rs" and r: "reclaim ctx now seen 0 rs (t, 0) = Inr (t', m)"
    using assms(1) by (auto simp: make_room_def split: if_splits)
  from reclaim_ok [OF r assms(2)] tx_List_view [OF l assms(2)] show ?thesis by metis
next
  case False
  then show ?thesis using assms by (simp add: make_room_def)
qed

lemma check_tx_ok:
  assumes "check_tx ctx pre limit kbs t = Inr (t', d)" "ctx_ok ctx" "tx_inv t" "distinct (map fst kbs)"
  defines "now \<equiv> Truncate_us (tx_now t)"
  shows "de_Allowed d = (\<forall>(k, b) \<in> set kbs. allow_at (arrival_of t now k) b \<le> now)"
    and "\<not> de_Allowed d \<Longrightarrow> t' = t"
    and "tx_inv t' \<and> tx_records t' = tx_records t"
    and "de_Allowed d \<Longrightarrow> (k, b) \<in> set kbs \<Longrightarrow>
      tx_view t' k = Some (arrival_record k (next_arrival now (arrival_of t now k) b))"
    and "k \<notin> fst ` set kbs \<Longrightarrow> tx_view t' k = tx_view t k
      \<or> (tx_view t' k = None \<and> (\<exists>r. tx_view t k = Some r \<and> \<not> IsZero (sr_ExpiresAt r) \<and> sr_ExpiresAt r \<le> now))"
proof -
  obtain d' n ps where a: "account ctx t now 0 kbs (\<lparr>de_Allowed = True, de_RetryAfter = 0\<rparr>, 0) = Inr ((d', n), ps)"
    using assms(1) by (auto simp: check_tx_def now_def Let_def)
  note acc = account_ok [OF a assms(2), simplified]
  have dd: "d = d'" using assms(1) a by (auto simp: check_tx_def now_def [symmetric] split: if_splits)
  then show al: "de_Allowed d = (\<forall>(k, b) \<in> set kbs. allow_at (arrival_of t now k) b \<le> now)" using acc by simp
  show no: "\<not> de_Allowed d \<Longrightarrow> t' = t" using assms(1) a dd by (auto simp: check_tx_def now_def [symmetric])
  have "(tx_inv t' \<and> tx_records t' = tx_records t)
    \<and> (de_Allowed d \<longrightarrow> (k, b) \<in> set kbs \<longrightarrow> tx_view t' k = Some (arrival_record k (next_arrival now (arrival_of t now k) b)))
    \<and> (k \<notin> fst ` set kbs \<longrightarrow> tx_view t' k = tx_view t k
      \<or> (tx_view t' k = None \<and> (\<exists>r. tx_view t k = Some r \<and> \<not> IsZero (sr_ExpiresAt r) \<and> sr_ExpiresAt r \<le> now)))"
  proof (cases "de_Allowed d")
    case False
    then show ?thesis using no assms(3) by simp
  next
    case True
    then obtain t1 where mr: "make_room ctx now pre limit (map fst kbs) n t = Inr t1" and pa: "put_all ctx 0 ps t1 = Inr t'"
      using assms(1) a dd by (auto simp: check_tx_def now_def [symmetric])
    note m = make_room_ok [OF mr assms(3)]
    note p = put_all_ok [OF pa conjunct1 [OF m]]
    let ?f = "\<lambda>(k, b). arrival_record k (next_arrival now (arrival_of t now k) b)"
    have ps: "ps = map ?f kbs" using acc by simp
    have view: "tx_view t' k = (case map_of kbs k of None \<Rightarrow> tx_view t1 k | Some b \<Rightarrow> Some (?f (k, b)))"
      unfolding conjunct2 [OF conjunct2 [OF p]] ps by (rule fold_records [OF assms(4)])
    show ?thesis
    proof (intro conjI impI)
      show "tx_view t' k = Some (arrival_record k (next_arrival now (arrival_of t now k) b))" if "(k, b) \<in> set kbs"
        using view map_of_is_SomeI [OF assms(4) that] by simp
      show "tx_view t' k = tx_view t k \<or> (tx_view t' k = None \<and> (\<exists>r. tx_view t k = Some r \<and> \<not> IsZero (sr_ExpiresAt r) \<and> sr_ExpiresAt r \<le> now))"
        if "k \<notin> fst ` set kbs"
      proof -
        have "map_of kbs k = None" using that by (simp add: map_of_eq_None_iff)
        then have "tx_view t' k = tx_view t1 k" using view by simp
        then show ?thesis using m by metis
      qed
    qed (use p m in simp_all)
  qed
  then show "tx_inv t' \<and> tx_records t' = tx_records t"
    and "de_Allowed d \<Longrightarrow> (k, b) \<in> set kbs \<Longrightarrow> tx_view t' k = Some (arrival_record k (next_arrival now (arrival_of t now k) b))"
    and "k \<notin> fst ` set kbs \<Longrightarrow> tx_view t' k = tx_view t k
      \<or> (tx_view t' k = None \<and> (\<exists>r. tx_view t k = Some r \<and> \<not> IsZero (sr_ExpiresAt r) \<and> sr_ExpiresAt r \<le> now))"
    by blast+
qed

text \<open>The arrival time a bucket has in the store at a given moment.\<close>

definition arrival_in :: "records \<Rightarrow> time \<Rightarrow> string \<Rightarrow> time" where
  "arrival_in rs now k = (case map_of rs k of None \<Rightarrow> now | Some r \<Rightarrow> time_UnixMicro (wrap64 (Uint64 (sr_Value r))))"

lemma Check_error: "Check sha256 l ctx now rs bs = (rs', Inl e) \<Longrightarrow> rs' = rs"
proof -
  assume c: "Check sha256 l ctx now rs bs = (rs', Inl e)"
  have upd: "fst (mem_Update rs now c0 c1 ks (Some g)) = rs" if "isl (snd (mem_Update rs now c0 c1 ks (Some g)))" for c0 c1 ks g
    using that by (auto simp: mem_Update_def split: sum.splits option.splits if_splits)
  have res: "\<exists>x. g (new_tx rs now) = Inr x" if "snd (mem_Update rs now c0 c1 ks (Some g)) = Inr u" for c0 c1 ks u and g :: "tx \<Rightarrow> tx result"
    using that by (auto simp: mem_Update_def split: sum.splits option.splits if_splits)
  show ?thesis
  proof (cases "collect_keys sha256 l [] bs")
    case (Inl e')
    then show ?thesis using c by (auto simp: Check_def split: if_splits)
  next
    case (Inr ks)
    let ?f = "check_tx ctx (rl_prefix sha256 l) (entry_limit l) (zip ks bs)"
    obtain rs1 r where u: "mem_Update rs now (ctx 0 0) (ctx 5 0) ((rl_prefix sha256 l @ ''capacity'') # ks) (Some (\<lambda>t. map_sum id fst (?f t))) = (rs1, r)"
      by fastforce
    show ?thesis
    proof (cases r)
      case (Inl e')
      then have "rs1 = rs" using upd [of "ctx 0 0" "ctx 5 0"] u by (metis fst_conv snd_conv sum.disc(1))
      then show ?thesis using c Inr u Inl by (auto simp: Check_def split: if_splits)
    next
      case r: (Inr v)
      obtain x where "map_sum id fst (?f (new_tx rs now)) = Inr x" using res [of "ctx 0 0" "ctx 5 0"] u r by (metis snd_conv)
      then obtain y where "?f (new_tx rs now) = Inr y" by (cases "?f (new_tx rs now)") auto
      then show ?thesis using c Inr u r by (auto simp: Check_def split: if_splits)
    qed
  qed
qed

lemma Check_runs:
  assumes "Check sha256 l ctx now rs bs = (rs', Inr d)"
  obtains t where "\<forall>b \<in> set bs. bucket_Validate b = Inr ()" "distinct (map (bucket_key sha256 l) bs)"
    "check_tx ctx (rl_prefix sha256 l) (entry_limit l) (zip (map (bucket_key sha256 l) bs) bs) (new_tx rs now) = Inr (t, d)"
    "rs' = commit (tx_writes t) rs" "bs \<noteq> []"
proof -
  obtain ks where ks: "collect_keys sha256 l [] bs = Inr ks"
    using assms by (cases "collect_keys sha256 l [] bs") (auto simp: Check_def split: if_splits)
  note k = collect_keys_ok [OF ks]
  let ?f = "check_tx ctx (rl_prefix sha256 l) (entry_limit l) (zip ks bs)"
  obtain rs1 r where u: "mem_Update rs now (ctx 0 0) (ctx 5 0) ((rl_prefix sha256 l @ ''capacity'') # ks) (Some (\<lambda>t. map_sum id fst (?f t))) = (rs1, r)"
    by fastforce
  obtain v where r: "r = Inr v" using assms ks u by (cases r) (auto simp: Check_def split: if_splits)
  then have "rs' = rs1" "map_sum id snd (?f (new_tx rs now)) = Inr d" "bs \<noteq> []"
    using assms ks u by (auto simp: Check_def split: if_splits)
  moreover from this obtain t where t: "?f (new_tx rs now) = Inr (t, d)" by (cases "?f (new_tx rs now)") auto
  moreover have "rs1 = commit (tx_writes t) rs"
    using u r t by (auto simp: mem_Update_def split: if_splits option.splits)
  ultimately show thesis using that k by blast
qed

lemma Check_ok:
  assumes "records_inv rs" "ctx_ok ctx" "Check sha256 l ctx now rs bs = (rs', Inr d)"
  defines "at \<equiv> Truncate_us now"
  shows "\<forall>b \<in> set bs. bucket_Validate b = Inr ()" "distinct (map (bucket_key sha256 l) bs)" "records_inv rs'"
    and "de_Allowed d = (\<forall>b \<in> set bs. allow_at (arrival_in rs at (bucket_key sha256 l b)) b \<le> at)"
    and "\<not> de_Allowed d \<Longrightarrow> rs' = rs"
    and "de_Allowed d \<Longrightarrow> b \<in> set bs \<Longrightarrow> map_of rs' (bucket_key sha256 l b) =
      Some (arrival_record (bucket_key sha256 l b) (next_arrival at (arrival_in rs at (bucket_key sha256 l b)) b))"
    and "k \<notin> bucket_key sha256 l ` set bs \<Longrightarrow> map_of rs' k = map_of rs k
      \<or> (map_of rs' k = None \<and> (\<exists>r. map_of rs k = Some r \<and> \<not> IsZero (sr_ExpiresAt r) \<and> sr_ExpiresAt r \<le> at))"
proof -
  obtain t where v: "\<forall>b \<in> set bs. bucket_Validate b = Inr ()" "distinct (map (bucket_key sha256 l) bs)"
    and t: "check_tx ctx (rl_prefix sha256 l) (entry_limit l) (zip (map (bucket_key sha256 l) bs) bs) (new_tx rs now) = Inr (t, d)"
    and rs': "rs' = commit (tx_writes t) rs"
    by (rule Check_runs [OF assms(3)])
  show "\<forall>b \<in> set bs. bucket_Validate b = Inr ()" "distinct (map (bucket_key sha256 l) bs)" by fact+
  have arr: "arrival_of (new_tx rs now) at k = arrival_in rs at k" for k by (simp add: arrival_of_def arrival_in_def)
  have now: "Truncate_us (tx_now (new_tx rs now)) = at" by (simp add: new_tx_def at_def)
  have set: "set (zip (map (bucket_key sha256 l) bs) bs) = (\<lambda>b. (bucket_key sha256 l b, b)) ` set bs"
    by (auto simp: zip_map1 zip_same_conv_map)
  note c = check_tx_ok [OF t assms(2) new_tx_inv [OF assms(1)], simplified v(2) now arr set, simplified]
  have inv: "tx_inv t" "tx_records t = rs" using c(3) v(2) by auto
  have com: "map_of rs' = tx_view t" using commit_view [OF inv(1)] inv(2) rs' by simp
  show "records_inv rs'" using inv assms(1) commit_inv by (simp add: rs' tx_inv_def)
  show "de_Allowed d = (\<forall>b \<in> set bs. allow_at (arrival_in rs at (bucket_key sha256 l b)) b \<le> at)"
    using c(1) v(2) by simp
  show "\<not> de_Allowed d \<Longrightarrow> rs' = rs" using c(2) v(2) by (simp add: rs' new_tx_def)
  show "de_Allowed d \<Longrightarrow> b \<in> set bs \<Longrightarrow> map_of rs' (bucket_key sha256 l b) =
      Some (arrival_record (bucket_key sha256 l b) (next_arrival at (arrival_in rs at (bucket_key sha256 l b)) b))"
    unfolding com using c(4) v(2) by auto
  show "k \<notin> bucket_key sha256 l ` set bs \<Longrightarrow> map_of rs' k = map_of rs k
      \<or> (map_of rs' k = None \<and> (\<exists>r. map_of rs k = Some r \<and> \<not> IsZero (sr_ExpiresAt r) \<and> sr_ExpiresAt r \<le> at))"
    unfolding com using c(5) [of k] v(2) by (auto simp: image_image)
qed

section \<open>The rate that is granted\<close>

text \<open>
  Runs that use one bucket: checks of any buckets, among which those with the same stored key have
  the same quota, the store's own pruning, and other writers that leave the record alone. The
  store's clock does not run backwards. \<open>grants\<close> are the moments at which a check that contained
  the bucket was allowed, latest first.
\<close>

definition clock_ok :: "time \<Rightarrow> bool" where
  "clock_ok t = (unix_epoch \<le> t \<and> t < unix_epoch + 2 ^ 62 * 1000)"

inductive limited :: "(string \<Rightarrow> string) \<Rightarrow> limiter \<Rightarrow> string \<Rightarrow> duration \<Rightarrow> int \<Rightarrow> records \<Rightarrow> time \<Rightarrow> time list \<Rightarrow> bool"
  for sha256 :: "string \<Rightarrow> string" and l :: limiter and k :: string and I :: duration and B :: int where
  start: "records_inv rs \<Longrightarrow> map_of rs k = None \<Longrightarrow> limited sha256 l k I B rs t []"
| check: "limited sha256 l k I B rs t grants \<Longrightarrow> t \<le> now \<Longrightarrow> clock_ok now \<Longrightarrow> ctx_ok ctx \<Longrightarrow>
     (\<And>b. b \<in> set bs \<Longrightarrow> bucket_key sha256 l b = k \<Longrightarrow> bu_Interval b = I \<and> bu_Burst b = B) \<Longrightarrow>
     Check sha256 l ctx now rs bs = (rs', r) \<Longrightarrow>
     limited sha256 l k I B rs' now
       (if (\<exists>d. r = Inr d \<and> de_Allowed d) \<and> k \<in> bucket_key sha256 l ` set bs then Truncate_us now # grants else grants)"
| prune: "limited sha256 l k I B rs t grants \<Longrightarrow> t \<le> now \<Longrightarrow> mem_Prune rs now c n = (rs', r) \<Longrightarrow>
     limited sha256 l k I B rs' now grants"
| other: "limited sha256 l k I B rs t grants \<Longrightarrow> t \<le> now \<Longrightarrow> records_inv rs' \<Longrightarrow> map_of rs' k = map_of rs k \<Longrightarrow>
     limited sha256 l k I B rs' now grants"

definition spaced :: "duration \<Rightarrow> int \<Rightarrow> time list \<Rightarrow> bool" where
  "spaced I B ts = (\<forall>i j. i < j \<longrightarrow> j < length ts \<longrightarrow> (int (j - i) + 1 - B) * I \<le> ts ! i - ts ! j)"

definition credit :: "duration \<Rightarrow> time list \<Rightarrow> time \<Rightarrow> bool" where
  "credit I ts e = (\<forall>j < length ts. ts ! j + (int j + 1) * I \<le> e)"

lemma spaced_Cons:
  assumes "spaced I B ts" "credit I ts e" "e \<le> now + (B - 1) * I"
  shows "spaced I B (now # ts)"
  unfolding spaced_def
proof (intro allI impI)
  fix i j assume ij: "i < j" "j < length (now # ts)"
  then obtain j' where j: "j = Suc j'" "j' < length ts" by (cases j) auto
  show "(int (j - i) + 1 - B) * I \<le> (now # ts) ! i - (now # ts) ! j"
  proof (cases i)
    case 0
    have "ts ! j' + (int j' + 1) * I \<le> now + (B - 1) * I" using assms(2,3) j(2) by (fastforce simp: credit_def)
    then show ?thesis using 0 j by (simp add: algebra_simps)
  next
    case (Suc i')
    then show ?thesis using assms(1) ij j by (simp add: spaced_def)
  qed
qed

lemma credit_Cons:
  assumes "credit I ts e" "now \<le> e"
  shows "credit I (now # ts) (e + I)"
  unfolding credit_def
proof (intro allI impI)
  fix j assume "j < length (now # ts)"
  then show "(now # ts) ! j + (int j + 1) * I \<le> e + I"
    using assms by (cases j) (auto simp: credit_def algebra_simps)
qed

lemma credit_mono: "credit I ts e \<Longrightarrow> e \<le> e' \<Longrightarrow> credit I ts e'"
  by (fastforce simp: credit_def)

lemma valid_bucket:
  assumes "bucket_Validate b = Inr ()"
  shows "1000 \<le> bu_Interval b" "bu_Interval b mod 1000 = 0" "1 \<le> bu_Burst b" "bu_Burst b * bu_Interval b \<le> 30 * Day"
    "allow_at tat b = tat - (bu_Burst b - 1) * bu_Interval b"
proof -
  have v: "1000 \<le> bu_Interval b" "bu_Interval b mod 1000 = 0" "1 \<le> bu_Burst b" "bu_Burst b \<le> 30 * Day div bu_Interval b"
    using assms by (auto simp: bucket_Validate_def Microsecond_def split: if_splits)
  then show "1000 \<le> bu_Interval b" "bu_Interval b mod 1000 = 0" "1 \<le> bu_Burst b" by blast+
  have "bu_Burst b * bu_Interval b \<le> (30 * Day div bu_Interval b) * bu_Interval b"
    using v by (intro mult_right_mono) auto
  also have "\<dots> \<le> 30 * Day" 
    using minus_mod_eq_div_mult [of "30 * Day" "bu_Interval b"] pos_mod_sign [of "bu_Interval b" "30 * Day"] v(1) by linarith
  finally show bi: "bu_Burst b * bu_Interval b \<le> 30 * Day" .
  have "0 \<le> (bu_Burst b - 1) * bu_Interval b" using v by simp
  moreover have "(bu_Burst b - 1) * bu_Interval b \<le> bu_Burst b * bu_Interval b" using v by (intro mult_right_mono) auto
  ultimately have "in_int64 (- ((bu_Burst b - 1) * bu_Interval b))"
    using bi by (simp add: in_int64_def Day_def)
  then have "wrap64 (- (bu_Burst b - 1) * bu_Interval b) = - ((bu_Burst b - 1) * bu_Interval b)"
    unfolding minus_mult_left [symmetric] by (rule wrap64_id)
  then show "allow_at tat b = tat - (bu_Burst b - 1) * bu_Interval b" by (simp add: allow_at_def)
qed

lemma Truncate_bounds:
  "Truncate_us t \<le> t" "t < Truncate_us t + 1000" "Truncate_us t mod 1000 = 0"
  "t \<le> now \<Longrightarrow> Truncate_us t \<le> Truncate_us now" "tat mod 1000 = 0 \<Longrightarrow> tat \<le> t \<Longrightarrow> tat \<le> Truncate_us t"
proof -
  show "Truncate_us t \<le> t" "t < Truncate_us t + 1000"
    using pos_mod_sign [of 1000 t] pos_mod_bound [of 1000 t] by (simp_all add: Truncate_us_def Microsecond_def)
  have q: "Truncate_us t = 1000 * (t div 1000)" for t
    using minus_mod_eq_mult_div [of t 1000] by (simp add: Truncate_us_def Microsecond_def)
  then show "Truncate_us t mod 1000 = 0" by simp
  show "t \<le> now \<Longrightarrow> Truncate_us t \<le> Truncate_us now" by (simp add: q zdiv_mono1)
  show "tat mod 1000 = 0 \<Longrightarrow> tat \<le> t \<Longrightarrow> tat \<le> Truncate_us t"
    using zdiv_mono1 [of tat t 1000] by (auto simp: q)
qed

lemma representable_next:
  assumes "clock_ok now" "bucket_Validate b = Inr ()" "allow_at tat b \<le> Truncate_us now" "tat mod 1000 = 0"
  shows "representable (next_arrival (Truncate_us now) tat b)"
proof -
  let ?n = "next_arrival (Truncate_us now) tat b" and ?at = "Truncate_us now"
  note v = valid_bucket [OF assms(2)]
  have "?n mod 1000 = 0"
    using v(2) assms(4) Truncate_bounds(3) [of now] by (simp add: next_arrival_def mod_add_eq [symmetric])
  moreover have "unix_epoch \<le> ?at"
    using Truncate_bounds(5) [OF epoch_mod] assms(1) by (simp add: clock_ok_def)
  moreover have "?n \<le> ?at + bu_Burst b * bu_Interval b" "?at \<le> ?n"
    using assms(3) v(1,3,5) by (auto simp: next_arrival_def algebra_simps)
  moreover from this have "?n \<le> now + 30 * Day" using v(4) Truncate_bounds(1) [of now] by linarith
  ultimately have "0 \<le> ?n - unix_epoch" "?n - unix_epoch < 2 ^ 63 * 1000"
    using assms(1) by (auto simp: clock_ok_def Day_def)
  then have "0 \<le> (?n - unix_epoch) div 1000" "(?n - unix_epoch) div 1000 < 2 ^ 63" by auto
  then show ?thesis using \<open>?n mod 1000 = 0\<close> by (simp add: representable_def in_int64_def)
qed

text \<open>The record of the bucket, and what the past grants leave of its credit.\<close>

definition bucket_record :: "string \<Rightarrow> srecord option \<Rightarrow> bool" where
  "bucket_record k ro = (case ro of None \<Rightarrow> True | Some r \<Rightarrow> \<exists>tat. r = arrival_record k tat \<and> representable tat)"

definition horizon :: "srecord option \<Rightarrow> time \<Rightarrow> bool" where
  "horizon ro t = (case ro of None \<Rightarrow> True | Some r \<Rightarrow> sr_ExpiresAt r \<le> Truncate_us t + 30 * Day)"

lemma horizon_mono: "horizon ro t \<Longrightarrow> t \<le> now \<Longrightarrow> horizon ro now"
  using Truncate_bounds(4) [of t now] by (auto simp: horizon_def split: option.splits)

definition earliest :: "srecord option \<Rightarrow> time \<Rightarrow> time" where
  "earliest ro t = (case ro of None \<Rightarrow> Truncate_us t | Some r \<Rightarrow> max (sr_ExpiresAt r) (Truncate_us t))"

lemma arrival_in_record:
  "bucket_record k (map_of rs k) \<Longrightarrow> (map_of rs k = None \<longrightarrow> tat = now) \<Longrightarrow>
   arrival_in rs now k = (case map_of rs k of None \<Rightarrow> now | Some r \<Rightarrow> sr_ExpiresAt r)"
  by (auto simp: arrival_in_def bucket_record_def arrival_record_def stored_time split: option.splits)

lemma earliest_mono: "t \<le> now \<Longrightarrow> earliest ro t \<le> earliest ro now"
  using Truncate_bounds(4) [of t now] by (auto simp: earliest_def split: option.split)

lemma earliest_removed: "sr_ExpiresAt r \<le> Truncate_us now \<Longrightarrow> earliest (Some r) now \<le> earliest None now"
  by (simp add: earliest_def)

lemma prune_entry:
  assumes "records_inv rs" "mem_Prune rs now c n = (rs', r)"
  shows "records_inv rs' \<and> (map_of rs' k = map_of rs k
    \<or> (map_of rs' k = None \<and> (\<exists>x. map_of rs k = Some x \<and> expired now x)))"
proof (cases "\<exists>m. prune_records now (nat n) rs = (rs', m)")
  case True
  then obtain m where p: "prune_records now (nat n) rs = (rs', m)" ..
  note sp = prune_records_spec [OF p]
  have inv: "records_inv rs'" using records_inv_subseq sp assms(1) by blast
  have d: "distinct (map fst rs)" "distinct (map fst rs')" using assms(1) inv by (simp_all add: records_inv_def)
  have sub: "set rs' \<subseteq> set rs" using sp by (auto simp: subseq_conv_nths dest: in_set_nthsD)
  have keep: "(k, x) \<in> set rs'" if "(k, x) \<in> set rs" "\<not> expired now x" for x
  proof -
    have "(k, x) \<in> set (filter (Not \<circ> (expired now \<circ> snd)) rs)" using that by simp
    then have "(k, x) \<in> set (filter (Not \<circ> (expired now \<circ> snd)) rs')" using sp by simp
    then show ?thesis by simp
  qed
  show ?thesis
  proof (cases "map_of rs k")
    case None
    then have "map_of rs' k = None" using sub by (auto simp: map_of_eq_None_iff)
    then show ?thesis using inv None by simp
  next
    case (Some x)
    then have "(k, x) \<in> set rs" by (rule map_of_SomeD)
    show ?thesis
    proof (cases "map_of rs' k")
      case None
      then show ?thesis using inv Some keep [OF \<open>(k, x) \<in> set rs\<close>] d by (metis map_of_is_SomeI option.distinct(1))
    next
      case some: (Some y)
      then have "(k, y) \<in> set rs" using sub map_of_SomeD by fastforce
      then show ?thesis using inv Some some d by (metis map_of_is_SomeI)
    qed
  qed
next
  case False
  then have "rs' = rs" using assms(2) by (auto simp: mem_Prune_def split: if_splits option.splits prod.splits)
  then show ?thesis using assms(1) by simp
qed

lemma limited_inv:
  "limited sha256 l k I B rs t grants \<Longrightarrow>
   records_inv rs \<and> bucket_record k (map_of rs k) \<and> spaced I B grants \<and> credit I grants (earliest (map_of rs k) t)"
proof (induction rule: limited.induct)
  case (start rs t)
  then show ?case by (simp add: bucket_record_def spaced_def credit_def)
next
  case (check rs t grants now ctx bs rs' r)
  let ?at = "Truncate_us now"
  have cr: "credit I grants (earliest (map_of rs k) now)"
    using check.IH earliest_mono [OF check.hyps(2)] credit_mono by blast
  show ?case
  proof (cases r)
    case (Inl e)
    then have "rs' = rs" using Check_error check.hyps(6) by simp
    then show ?thesis using check.IH cr Inl by simp
  next
    case (Inr d)
    note c = Check_ok [OF conjunct1 [OF check.IH] check.hyps(4) check.hyps(6) [unfolded Inr]]
    show ?thesis
    proof (cases "de_Allowed d")
      case False
      then show ?thesis using c(5) check.IH cr Inr by auto
    next
      case al: True
      show ?thesis
      proof (cases "k \<in> bucket_key sha256 l ` set bs")
        case True
        then obtain b where b: "b \<in> set bs" "bucket_key sha256 l b = k" by blast
        let ?tat = "arrival_in rs ?at k"
        have quota: "bu_Interval b = I" "bu_Burst b = B" using check.hyps(5) b by auto
        note v = valid_bucket [OF bspec [OF c(1) b(1)]]
        have allowed: "allow_at ?tat b \<le> ?at" using c(4) al b by auto
        have tat: "?tat = (case map_of rs k of None \<Rightarrow> ?at | Some r \<Rightarrow> sr_ExpiresAt r)"
          using arrival_in_record check.IH by blast
        have tm: "?tat mod 1000 = 0"
          unfolding tat using check.IH Truncate_bounds(3) [of now]
          by (auto simp: bucket_record_def arrival_record_def representable_def split: option.split)
        have new: "map_of rs' k = Some (arrival_record k (next_arrival ?at ?tat b))" using c(6) al b by auto
        have e: "earliest (map_of rs k) now = max ?tat ?at"
          unfolding tat by (auto simp: earliest_def split: option.split)
        have nx: "next_arrival ?at ?tat b = max ?tat ?at + I"
          by (auto simp: next_arrival_def quota max_def)
        have "representable (next_arrival ?at ?tat b)"
          by (rule representable_next [OF check.hyps(3) bspec [OF c(1) b(1)] allowed tm])
        then have "bucket_record k (map_of rs' k)" by (auto simp: bucket_record_def new)
        moreover have "spaced I B (?at # grants)"
          by (rule spaced_Cons [OF _ cr]) (use check.IH allowed v(1,3,5) quota in \<open>auto simp: e\<close>)
        moreover have "credit I (?at # grants) (earliest (map_of rs' k) now)"
        proof (rule credit_mono [OF credit_Cons [OF cr]])
          show "?at \<le> earliest (map_of rs k) now" by (simp add: e)
          show "earliest (map_of rs k) now + I \<le> earliest (map_of rs' k) now"
            unfolding e new nx by (simp add: earliest_def arrival_record_def)
        qed
        ultimately show ?thesis using c(3) al True Inr by auto
      next
        case False
        consider (same) "map_of rs' k = map_of rs k"
          | (gone) r where "map_of rs' k = None" "map_of rs k = Some r" "sr_ExpiresAt r \<le> ?at"
          using c(7) [OF False] by blast
        then have "bucket_record k (map_of rs' k) \<and> credit I grants (earliest (map_of rs' k) now)"
        proof cases
          case same
          then show ?thesis using check.IH cr by simp
        next
          case gone
          then show ?thesis using credit_mono [OF cr] earliest_removed [OF gone(3)] by (simp add: bucket_record_def)
        qed
        then show ?thesis using c(3) check.IH False by simp
      qed
    qed
  qed
next
  case (prune rs t grants now c n rs' r)
  note p = prune_entry [OF conjunct1 [OF prune.IH] prune.hyps(3), of k]
  have cr: "credit I grants (earliest (map_of rs k) now)"
    using prune.IH earliest_mono [OF prune.hyps(2)] credit_mono by blast
  show ?case
  proof (cases "map_of rs' k = map_of rs k")
    case True
    then show ?thesis using p prune.IH cr by simp
  next
    case False
    then obtain x where x: "map_of rs' k = None" "map_of rs k = Some x" "expired now x" using p by blast
    then have "sr_ExpiresAt x \<le> Truncate_us now"
      using prune.IH Truncate_bounds(5) by (auto simp: bucket_record_def expired_def arrival_record_def representable_def)
    then show ?thesis using x p prune.IH credit_mono [OF cr] earliest_removed by (simp add: bucket_record_def)
  qed
next
  case (other rs t grants now rs')
  then show ?case using earliest_mono credit_mono by fastforce
qed

lemma limited_horizon:
  "limited sha256 l k I B rs t grants \<Longrightarrow> horizon (map_of rs k) t"
proof (induction rule: limited.induct)
  case (check rs t grants now ctx bs rs' r)
  note inv = limited_inv [OF check.hyps(1)]
  have hz: "horizon (map_of rs k) now" using check.IH check.hyps(2) horizon_mono by blast
  show ?case
  proof (cases "\<exists>d. r = Inr d \<and> de_Allowed d")
    case False
    have "rs' = rs"
    proof (cases r)
      case (Inl e)
      then show ?thesis using Check_error check.hyps(6) by simp
    next
      case (Inr d)
      then show ?thesis using Check_ok(5) [OF conjunct1 [OF inv] check.hyps(4)] check.hyps(6) False by blast
    qed
    then show ?thesis using hz by simp
  next
    case True
    then obtain d where d: "r = Inr d" "de_Allowed d" by blast
    note c = Check_ok [OF conjunct1 [OF inv] check.hyps(4) check.hyps(6) [unfolded d(1)]]
    show ?thesis
    proof (cases "k \<in> bucket_key sha256 l ` set bs")
      case True
      then obtain b where b: "b \<in> set bs" "bucket_key sha256 l b = k" by blast
      note v = valid_bucket [OF bspec [OF c(1) b(1)]]
      let ?tat = "arrival_in rs (Truncate_us now) k"
      have "allow_at ?tat b \<le> Truncate_us now" using c(4) d(2) b by auto
      moreover have "bu_Interval b \<le> bu_Burst b * bu_Interval b" using v(1,3) by simp
      ultimately have "next_arrival (Truncate_us now) ?tat b \<le> Truncate_us now + 30 * Day"
        using v(4) unfolding v(5) next_arrival_def by (auto simp: algebra_simps)
      then show ?thesis using c(6) [OF d(2) b(1)] b(2) by (simp add: horizon_def arrival_record_def)
    next
      case False
      then show ?thesis using c(7) [OF False] hz by (auto simp: horizon_def)
    qed
  qed
next
  case (prune rs t grants now c n rs' r)
  then show ?case
    using prune_entry [OF conjunct1 [OF limited_inv [OF prune.hyps(1)]] prune.hyps(3), of k] horizon_mono [OF prune.IH prune.hyps(2)]
    by (auto simp: horizon_def)
next
  case (other rs t grants now rs')
  then show ?case using horizon_mono by simp
qed (simp add: horizon_def)

text \<open>A check of one bucket that has a record always comes to a decision.\<close>

lemma live_ctx: "ctx_ok (\<lambda>_ _. None)"
  by (simp add: ctx_ok_def)

lemma Check_single:
  assumes "records_inv rs" "bucket_Validate b = Inr ()" "map_of rs (bucket_key sha256 l b) = Some (arrival_record (bucket_key sha256 l b) tat)"
    and "representable tat" "1 \<le> entry_limit l" "entry_limit l \<le> 10000" "ValidKey (rl_prefix sha256 l @ ''capacity'')"
  shows "\<exists>rs'. Check sha256 l (\<lambda>_ _. None) now rs [b] = (rs',
    Inr (if Truncate_us now < allow_at tat b
         then \<lparr>de_Allowed = False, de_RetryAfter = max 0 (time_Sub (allow_at tat b) (Truncate_us now))\<rparr>
         else \<lparr>de_Allowed = True, de_RetryAfter = 0\<rparr>))"
proof -
  let ?k = "bucket_key sha256 l b" and ?c = "\<lambda>_ _. None"
  have vk: "ValidKey ?k" using assms(1) map_of_SomeD [OF assms(3)] by (auto simp: records_inv_def)
  have arr: "arrival (new_tx rs now) None at ?k = Inr (tat, False)" for at
    using vk assms(3) stored_time [OF assms(4)]
    by (simp add: arrival_def tx_Get_view) (simp add: arrival_record_def)
  let ?t = "new_tx rs now"
  have "tx_now ?t = now" by (simp add: new_tx_def)
  then have tx: "\<exists>t. check_tx ?c pre lim [(?k, b)] ?t = Inr (t,
      if Truncate_us now < allow_at tat b
      then \<lparr>de_Allowed = False, de_RetryAfter = max 0 (time_Sub (allow_at tat b) (Truncate_us now))\<rparr>
      else \<lparr>de_Allowed = True, de_RetryAfter = 0\<rparr>)" for pre lim
    using vk by (auto simp: check_tx_def Let_def arr make_room_def tx_Put_def arrival_record_def)
  then obtain t where "check_tx ?c (rl_prefix sha256 l) (entry_limit l) [(?k, b)] ?t = Inr (t,
      if Truncate_us now < allow_at tat b
      then \<lparr>de_Allowed = False, de_RetryAfter = max 0 (time_Sub (allow_at tat b) (Truncate_us now))\<rparr>
      else \<lparr>de_Allowed = True, de_RetryAfter = 0\<rparr>)" by blast
  then show ?thesis
    using assms(2,5-) vk by (simp add: Check_def Let_def mem_Update_def)
qed

text \<open>The first check of a bucket, in an empty store.\<close>

lemma Check_first:
  assumes "bucket_Validate b = Inr ()" "ValidKey (bucket_key sha256 l b)" "ValidKey (rl_prefix sha256 l @ ''capacity'')"
    and "1 \<le> entry_limit l" "entry_limit l \<le> 10000"
  shows "Check sha256 l (\<lambda>_ _. None) now [] [b] =
    ([(bucket_key sha256 l b, arrival_record (bucket_key sha256 l b) (Truncate_us now + bu_Interval b))],
     Inr \<lparr>de_Allowed = True, de_RetryAfter = 0\<rparr>)"
proof -
  let ?t = "new_tx [] now" and ?k = "bucket_key sha256 l b"
  note v = valid_bucket [OF assms(1)]
  have arr: "arrival ?t None at ?k = Inr (at, True)" for at
    using assms(2) by (simp add: arrival_def tx_Get_view errors_is_def)
  have "0 \<le> (bu_Burst b - 1) * bu_Interval b" using v(1,3) by simp
  then have al: "\<not> at < allow_at at b" for at unfolding v(5) by simp
  have nx: "next_arrival at at b = at + bu_Interval b" for at by (simp add: next_arrival_def)
  have room: "make_room (\<lambda>_ _. None) at pre (entry_limit l) seen 1 ?t = Inr ?t" for at pre seen
    using assms(4,5) by (simp add: make_room_def tx_List_def tx_live_def new_tx_def)
  have "check_tx (\<lambda>_ _. None) pre (entry_limit l) [(?k, b)] ?t =
      Inr (?t\<lparr>tx_writes := [(?k, Some (arrival_record ?k (Truncate_us now + bu_Interval b)))]\<rparr>, \<lparr>de_Allowed = True, de_RetryAfter = 0\<rparr>)" for pre
    using assms(2) by (simp add: check_tx_def Let_def arr al nx room tx_Put_def) (simp add: arrival_record_def new_tx_def)
  then show ?thesis using assms by (simp add: Check_def Let_def mem_Update_def)
qed

section \<open>Properties\<close>

text \<open>
  C11. The granted rate. Whatever buckets are checked together with it, whoever prunes the store and
  whenever records are reclaimed, a bucket never grants more than its quota: of its grants, any
  run of n consecutive ones spans at least n - Burst intervals. So in any window of time no more
  than Burst plus one per interval are allowed.
\<close>

theorem granted_rate:
  assumes "limited sha256 l k I B rs t grants" "i < j" "j < length grants"
  shows "(int (j - i) + 1 - B) * I \<le> grants ! i - grants ! j"
  using limited_inv [OF assms(1)] assms(2,3) by (simp add: spaced_def)

definition sample_bucket :: bucket where
  "sample_bucket = \<lparr>bu_Key = ''dev'', bu_Interval = 1000, bu_Burst = 1\<rparr>"

definition sample_limiter :: limiter where
  "sample_limiter = \<lparr>li_MaxEntries = 2, li_Namespace = ''mdm''\<rparr>"

definition sample_key :: string where
  "sample_key = bucket_key (\<lambda>s. s) sample_limiter sample_bucket"

lemma sample_bucket_facts:
  "bucket_Validate sample_bucket = Inr ()" "ValidKey (bucket_key (\<lambda>s. s) sample_limiter sample_bucket)"
  "ValidKey (rl_prefix (\<lambda>s. s) sample_limiter @ ''capacity'')"
  "1 \<le> entry_limit sample_limiter" "entry_limit sample_limiter \<le> 10000"
  "bu_Interval sample_bucket = 1000" "bu_Burst sample_bucket = 1"
  by code_simp+

text \<open>A run in which the bucket is granted at the epoch and again one interval later.\<close>

abbreviation sample_records :: records where
  "sample_records \<equiv> [(sample_key, arrival_record sample_key (unix_epoch + 1000))]"

lemma sample_epoch: "Truncate_us unix_epoch = unix_epoch" "representable (unix_epoch + 1000)" "clock_ok unix_epoch"
  "Truncate_us (unix_epoch + 1000) = unix_epoch + 1000" "clock_ok (unix_epoch + 1000)"
  by code_simp+

lemma sample_granted: "limited (\<lambda>s. s) sample_limiter sample_key 1000 1 sample_records unix_epoch [unix_epoch]"
proof -
  have "limited (\<lambda>s. s) sample_limiter sample_key 1000 1 [] unix_epoch []"
    by (rule limited.start) (simp_all add: records_inv_def)
  from limited.check [OF this order_refl sample_epoch(3) live_ctx _ Check_first [OF sample_bucket_facts(1-5)]]
  show ?thesis by (simp add: sample_bucket_facts sample_epoch sample_key_def)
qed

lemma sample_single:
  "\<exists>rs'. Check (\<lambda>s. s) sample_limiter (\<lambda>_ _. None) now sample_records [sample_bucket] = (rs',
    Inr (if Truncate_us now < unix_epoch + 1000
         then \<lparr>de_Allowed = False, de_RetryAfter = max 0 (time_Sub (unix_epoch + 1000) (Truncate_us now))\<rparr>
         else \<lparr>de_Allowed = True, de_RetryAfter = 0\<rparr>))"
proof -
  have inv: "records_inv sample_records"
    using sample_bucket_facts(2) by (simp add: records_inv_def sample_key_def arrival_record_def)
  have al: "allow_at tat sample_bucket = tat" for tat
    using valid_bucket(5) [OF sample_bucket_facts(1)] by (simp add: sample_bucket_facts)
  show ?thesis
    using Check_single [OF inv sample_bucket_facts(1) _ sample_epoch(2) sample_bucket_facts(4,5,3), of now]
    unfolding al by (simp only: sample_key_def [symmetric] map_of.simps fst_conv snd_conv fun_upd_same)
qed

theorem granted_rate_witness:
  "\<exists>rs t grants. limited (\<lambda>s. s) sample_limiter sample_key 1000 1 rs t grants \<and> length grants = 2
     \<and> 1000 \<le> grants ! 0 - grants ! 1"
proof -
  obtain rs' where c: "Check (\<lambda>s. s) sample_limiter (\<lambda>_ _. None) (unix_epoch + 1000) sample_records [sample_bucket]
      = (rs', Inr \<lparr>de_Allowed = True, de_RetryAfter = 0\<rparr>)"
    using sample_single [of "unix_epoch + 1000"] by (auto simp: sample_epoch)
  from limited.check [OF sample_granted _ sample_epoch(5) live_ctx _ c]
  have run: "limited (\<lambda>s. s) sample_limiter sample_key 1000 1 rs' (unix_epoch + 1000) [unix_epoch + 1000, unix_epoch]"
    by (simp add: sample_epoch sample_bucket_facts sample_key_def)
  from granted_rate [OF this, of 0 1] show ?thesis
    using run by (intro exI [of _ rs'] exI [of _ "unix_epoch + 1000"] exI [of _ "[unix_epoch + 1000, unix_epoch]"]) simp
qed

text \<open>
  C39. \<open>Retry-After\<close> is exact. When a bucket is denied, repeating the check later is denied as long as
  fewer than \<open>RetryAfter\<close> nanoseconds have passed and allowed as soon as they have, if nothing
  else uses the bucket in between. The decision never fails for want of capacity.
\<close>

theorem retry_after_exact:
  assumes "limited sha256 l (bucket_key sha256 l b) (bu_Interval b) (bu_Burst b) rs t grants" "t \<le> now"
    and "Check sha256 l (\<lambda>_ _. None) now rs [b] = (rs', Inr d)" "\<not> de_Allowed d"
  shows "rs' = rs \<and> 0 < de_RetryAfter d \<and> (\<exists>rs2 d2. Check sha256 l (\<lambda>_ _. None) now2 rs [b] = (rs2, Inr d2)
    \<and> (de_Allowed d2 \<longleftrightarrow> Truncate_us now + de_RetryAfter d \<le> Truncate_us now2))"
proof -
  let ?k = "bucket_key sha256 l b" and ?at = "Truncate_us now"
  note inv = limited_inv [OF assms(1)] and hz = limited_horizon [OF assms(1)]
  note c = Check_ok [OF conjunct1 [OF inv] live_ctx assms(3)]
  have vb: "bucket_Validate b = Inr ()" using c(1) by simp
  note v = valid_bucket [OF vb]
  have "?at < allow_at (arrival_in rs ?at ?k) b" using c(4) assms(4) by simp
  moreover have "0 \<le> (bu_Burst b - 1) * bu_Interval b" using v(1,3) by simp
  ultimately have "map_of rs ?k \<noteq> None"
    unfolding v(5) by (cases "map_of rs ?k") (simp_all add: arrival_in_def)
  then obtain tat where r: "map_of rs ?k = Some (arrival_record ?k tat)" "representable tat"
    using inv by (auto simp: bucket_record_def split: option.splits)
  have lim: "1 \<le> entry_limit l" "entry_limit l \<le> 10000" "ValidKey (rl_prefix sha256 l @ ''capacity'')"
    using assms(3) by (auto simp: Check_def Let_def mem_Update_def split: if_splits sum.splits)
  note one = Check_single [OF conjunct1 [OF inv] vb r lim]
  have d: "?at < allow_at tat b" "de_RetryAfter d = max 0 (time_Sub (allow_at tat b) ?at)"
    using one [of now] assms(3,4) by (auto split: if_splits)
  have "tat \<le> ?at + 30 * Day"
    using hz r(1) Truncate_bounds(4) [OF assms(2)] by (simp add: horizon_def arrival_record_def)
  moreover have "0 \<le> (bu_Burst b - 1) * bu_Interval b" using v(1,3) by simp
  ultimately have "allow_at tat b - ?at \<le> 30 * Day" unfolding v(5) by linarith
  then have "de_RetryAfter d = allow_at tat b - ?at"
    using d by (simp add: time_Sub_def Day_def)
  moreover obtain rs2 where "Check sha256 l (\<lambda>_ _. None) now2 rs [b] = (rs2, Inr (if Truncate_us now2 < allow_at tat b
         then \<lparr>de_Allowed = False, de_RetryAfter = max 0 (time_Sub (allow_at tat b) (Truncate_us now2))\<rparr>
         else \<lparr>de_Allowed = True, de_RetryAfter = 0\<rparr>))" using one [of now2] by blast
  ultimately show ?thesis using c(5) [OF assms(4)] d(1) by auto
qed

theorem retry_after_exact_witness:
  "\<exists>d. snd (Check (\<lambda>s. s) sample_limiter (\<lambda>_ _. None) unix_epoch sample_records [sample_bucket]) = Inr d \<and> 0 < de_RetryAfter d"
proof -
  obtain rs' d where c: "Check (\<lambda>s. s) sample_limiter (\<lambda>_ _. None) unix_epoch sample_records [sample_bucket] = (rs', Inr d)" "\<not> de_Allowed d"
    using sample_single [of unix_epoch] by (auto simp: sample_epoch)
  from retry_after_exact [OF _ order_refl c, of "[unix_epoch]"] sample_granted c(1) show ?thesis
    by (simp add: sample_key_def sample_bucket_facts)
qed


end
