(* ===== verification/Mdm_Reconcile.thy ===== *)
theory Mdm_Reconcile
  imports Mdm_Queue "HOL-Library.Char_ord" "HOL-Library.List_Lexorder"
begin

text \<open>
  Desired-state reconciliation, \<open>mdmprotocol/mdm/reconcile.go\<close>: the commands that bring a device from
  what it has acknowledged to what is desired, and the acknowledged values read back from the
  queue page by page.
\<close>

record setting =
  st_URI :: string
  st_Value :: string
  st_Format :: string

text \<open>\<open>sort.Slice\<close> leaves the order of equal URIs open; here it is the order given.\<close>

definition replace_for :: "setting \<Rightarrow> mcmd result" where
  "replace_for s = NewReplace (st_URI s) (st_Value s) (if st_Format s \<noteq> [] then [WithFormat (st_Format s)] else [])"

fun diff_loop :: "(string \<times> string) list \<Rightarrow> setting list \<Rightarrow> mcmd list" where
  "diff_loop acked [] = []"
| "diff_loop acked (s # ss) =
     (if map_of acked (st_URI s) = Some (st_Value s) then diff_loop acked ss
      else case replace_for s of Inl e \<Rightarrow> diff_loop acked ss | Inr c \<Rightarrow> c # diff_loop acked ss)"

definition Diff :: "setting list \<Rightarrow> (string \<times> string) list \<Rightarrow> mcmd list" where
  "Diff desired acked = diff_loop acked (sort_key st_URI desired)"

definition put_item :: "(item \<Rightarrow> string) \<Rightarrow> item \<Rightarrow> (string \<times> string) list \<Rightarrow> (string \<times> string) list" where
  "put_item uri it out =
     (if uri it \<noteq> [] \<and> it_Data it \<noteq> None then AList.update (uri it) (data_Text (it_Data it)) out else out)"

definition leaf_values :: "command \<Rightarrow> (string \<times> string) list \<Rightarrow> (string \<times> string) list" where
  "leaf_values leaf out =
     (case leaf of
        Add _ \<Rightarrow> fold (put_item it_Target) (itemsOf leaf) out
      | Replace _ \<Rightarrow> fold (put_item it_Target) (itemsOf leaf) out
      | _ \<Rightarrow> out)"

definition collectValues :: "qcmd \<Rightarrow> (string \<times> string) list \<Rightarrow> (string \<times> string) list" where
  "collectValues qc out =
     (let out1 = (case mc_Body (q_Command qc) of None \<Rightarrow> out | Some body \<Rightarrow> fold leaf_values (Leaves body) out)
      in case q_Result qc of None \<Rightarrow> out1 | Some r \<Rightarrow> fold (put_item item_LocURI) (rs_Items r) out1)"

text \<open>The loop of \<open>AcknowledgedValues\<close>; a queue may keep it going for ever.\<close>

partial_function (option) ack_loop :: "(page \<Rightarrow> qcmd page_result result) \<Rightarrow> page \<Rightarrow> (string \<times> string) list
    \<Rightarrow> (string \<times> string) list result option" where
  "ack_loop fetch p out =
     (case fetch p of
        Inl e \<Rightarrow> Some (Inl e)
      | Inr r \<Rightarrow>
          if pr_NextCursor r = [] then Some (Inr (fold collectValues (pr_Items r) out))
          else ack_loop fetch (p\<lparr>pg_Cursor := pr_NextCursor r\<rparr>) (fold collectValues (pr_Items r) out))"

definition acked_query :: query where
  "acked_query = \<lparr>qy_States = [StateAcknowledged], qy_Internal = None, qy_Scope = []\<rparr>"

definition AcknowledgedValues :: "(query \<Rightarrow> page \<Rightarrow> qcmd page_result result) \<Rightarrow> (string \<times> string) list result option" where
  "AcknowledgedValues list = ack_loop (list acked_query) \<lparr>pg_Cursor = [], pg_Limit = MaxPageSize\<rparr> []"

section \<open>The loop ends\<close>

lemma ack_loop_follow:
  "follow fuel fetch p = Some (Inr items) \<Longrightarrow> ack_loop fetch p out = Some (Inr (fold collectValues items out))"
proof (induction fuel arbitrary: p out items)
  case (Suc fuel)
  then obtain r where r: "fetch p = Inr r" by (auto split: sum.splits)
  show ?case
  proof (cases "pr_NextCursor r = []")
    case True
    then show ?thesis using Suc.prems r by (simp add: ack_loop.simps)
  next
    case False
    then obtain rest where rest: "follow fuel fetch (p\<lparr>pg_Cursor := pr_NextCursor r\<rparr>) = Some (Inr rest)"
      and items: "items = pr_Items r @ rest"
      using Suc.prems r by auto
    from Suc.IH [OF rest] False r items show ?thesis by (subst ack_loop.simps) simp
  qed
qed simp

section \<open>What a diff does\<close>

lemma build_format: "o_xml (build (if f \<noteq> [] then [WithFormat f] else [])) = False"
  by (simp add: build_def)

lemma replace_for_iff: "(\<exists>c. replace_for s = Inr c) \<longleftrightarrow> locuri_ok (st_URI s)"
  by (auto simp: replace_for_def NewReplace_def new_item_def Let_def locuri_ok_def split: sum.splits)

definition replaces :: "setting \<Rightarrow> mcmd \<Rightarrow> bool" where
  "replaces s c = (\<exists>it. mc_Body c = Some (Replace (zero_cmd\<lparr>c_Items := [it]\<rparr>)) \<and> it_Target it = st_URI s
     \<and> it_Data it = Some (data_value (st_Value s)) \<and> st_URI s \<noteq> [])"

lemma replace_for_replaces: "replace_for s = Inr c \<Longrightarrow> replaces s c"
  by (auto simp: replace_for_def NewReplace_def new_item_def Let_def replaces_def leaf_command_def data_value_def
      build_def locuri_ok_def CheckLocURI_def split: sum.splits if_splits)

definition wanted :: "(string \<times> string) list \<Rightarrow> setting \<Rightarrow> bool" where
  "wanted acked s = (locuri_ok (st_URI s) \<and> map_of acked (st_URI s) \<noteq> Some (st_Value s))"

lemma diff_loop_wanted:
  "list_all2 (\<lambda>s c. replace_for s = Inr c) (filter (wanted acked) ss) (diff_loop acked ss)"
proof (induction ss)
  case (Cons s ss)
  show ?case
  proof (cases "wanted acked s")
    case True
    then obtain c where "replace_for s = Inr c" using replace_for_iff by (auto simp: wanted_def)
    then show ?thesis using True Cons by (simp add: wanted_def)
  next
    case False
    then consider "map_of acked (st_URI s) = Some (st_Value s)" | e where "replace_for s = Inl e"
      using replace_for_iff [of s] by (cases "replace_for s") (auto simp: wanted_def)
    then show ?thesis using False Cons by cases auto
  qed
qed simp

text \<open>The values read back from an acknowledged replace.\<close>

lemma collect_replace:
  assumes "replaces s (q_Command qc)" "q_Result qc = None \<or> rs_Items (the (q_Result qc)) = []"
  shows "collectValues qc out = AList.update (st_URI s) (st_Value s) out"
  using assms
  by (cases "q_Result qc") (auto simp: replaces_def collectValues_def leaf_values_def put_item_def data_Text_def data_value_def)

lemma collect_replaces:
  assumes "list_all2 (\<lambda>s qc. replaces s (q_Command qc) \<and> (q_Result qc = None \<or> rs_Items (the (q_Result qc)) = [])) ss qcs"
    and "distinct (map st_URI ss)"
  shows "map_of (fold collectValues qcs out) u = (case map_of (map (\<lambda>s. (st_URI s, st_Value s)) ss) u of None \<Rightarrow> map_of out u | Some v \<Rightarrow> Some v)"
  using assms
proof (induction arbitrary: out rule: list_all2_induct)
  case (Cons s ss qc qcs)
  have "map_of (map (\<lambda>s. (st_URI s, st_Value s)) ss) (st_URI s) = None"
    using Cons.prems by (auto simp: map_of_eq_None_iff)
  then show ?case
    using Cons collect_replace [of s qc] by (auto simp: AList.update_conv' split: option.split)
qed simp

text \<open>A diff with respect to what the device is known to hold.\<close>

lemma diff_empty: "Diff desired acked = [] \<longleftrightarrow> (\<forall>s \<in> set desired. \<not> wanted acked s)"
proof -
  have "length (diff_loop acked ss) = length (filter (wanted acked) ss)" for ss
    using list_all2_lengthD [OF diff_loop_wanted] by metis
  then have "Diff desired acked = [] \<longleftrightarrow> filter (wanted acked) (sort_key st_URI desired) = []"
    unfolding Diff_def by (metis length_0_conv)
  then show ?thesis by (auto simp: filter_empty_conv)
qed

text \<open>An acknowledged Delete takes nothing back from the values.\<close>

lemma delete_forgotten:
  "mc_Body (q_Command qc) = Some (Delete n) \<Longrightarrow> q_Result qc = None \<Longrightarrow> collectValues qc out = out"
  by (simp add: collectValues_def leaf_values_def)

section \<open>Properties\<close>





end
