(* ===== verification/Spec2Isabelle.thy ===== *)
theory Spec2Isabelle
  imports Syncml_Validate Syncml_LargeObject Syncml_Response Syncml_Encode Syncml_Auth
    Mdm_Command Paging Mdm_Queue Mdm_Session State_Store Mdm_Auth Mdm_Inmem
    Enrollment_Store Mdm_System Ratelimit Mdm_Reconcile
begin

text \<open>
  go-microsoft-dm, an OMA DM management server for Windows devices.

  A device speaks SyncML with the server: it posts a message, the server acknowledges every
  command in it, files the answers to what it sent earlier, and replies with the commands that are
  queued for the device. The theories follow the Go packages under \<open>src/\<close>.

  \<^bold>\<open>The language.\<close> \<open>Go_Prelude\<close> and \<open>Go_Strings\<close> hold what the source uses of Go and its standard
  library: errors as lists of the sentinels \<open>errors.Is\<close> finds in them, results as a sum type, 64-bit
  integers with their wrap-around, \<open>strconv\<close>, \<open>strings\<close>, UTF-8 and base64. \<open>Go_Monad\<close> is the state and
  error monad in which the engine is written, with weakest preconditions and the rules that carry
  an invariant through a composition. Strings are byte lists, times are nanoseconds with 0 as the
  zero time, pointers that may be nil are options, and maps are association lists with distinct
  keys. A mutex makes an operation atomic, so an operation is one step.

  \<^bold>\<open>SyncML\<close> (\<open>mdmprotocol/syncml\<close>).
  \<^item> \<open>Syncml_Message\<close>: \<open>message.go\<close> and \<open>constants.go\<close>, the message as records and a datatype of commands.
  \<^item> \<open>Syncml_Validate\<close>: \<open>validate.go\<close>; the validator accepts exactly the messages a declarative
    predicate describes, and an accepted message has the structure the engine relies on.
  \<^item> \<open>Syncml_LargeObject\<close>: \<open>largeobject.go\<close>; splitting an object and assembling the chunks gives it
    back, chunks never cut a rune, and the buffer of an assembler is bounded.
  \<^item> \<open>Syncml_Response\<close>, \<open>Syncml_Encode\<close>, \<open>Syncml_Auth\<close>: \<open>response.go\<close>, \<open>encode.go\<close>, \<open>auth.go\<close>; the shape of
    replies, well-formed markup down to the bytes, and credentials that verify.

  \<^bold>\<open>Commands, queue and stores.\<close>
  \<^item> \<open>Mdm_Command\<close>: \<open>mdmprotocol/mdm/command.go\<close>; builders and the check that every built command passes.
  \<^item> \<open>Paging\<close>: \<open>paging/paging.go\<close> and the cursors of \<open>storage/inmem/inmem.go\<close>; following cursors visits every item once.
  \<^item> \<open>Mdm_Queue\<close>: the contract of \<open>mdmprotocol/mdm/queue.go\<close> as the locale \<open>command_queue\<close>, and
    \<open>storage/inmem/queue.go\<close>, which interprets it; order, delivery, pruning.
  \<^item> \<open>State_Store\<close>: \<open>state/state.go\<close>; transactions are all or nothing, listing and pruning are exact.
  \<^item> \<open>Mdm_Session\<close>: \<open>mdmprotocol/mdm/session.go\<close> and the collected answers of \<open>collect.go\<close>; the locale
    \<open>session_store\<close> and the in-memory store that interprets it. The store hands out copies that
    share their maps with it; \<open>aliased\<close> says what a failing request leaves behind through them.

  \<^bold>\<open>The session engine\<close> (\<open>mdmprotocol/mdm\<close>).
  \<^item> \<open>Mdm_Auth\<close>: \<open>auth.go\<close>, \<open>basic.go\<close>, \<open>nonce.go\<close>, parts of \<open>transport.go\<close>.
  \<^item> \<open>Mdm_Service\<close>: \<open>service.go\<close>, \<open>alerts.go\<close>, \<open>results.go\<close>, \<open>collect.go\<close>, \<open>deliver.go\<close>, \<open>build.go\<close>, \<open>finish.go\<close>,
    \<open>hooks.go\<close>. \<open>handle_message\<close> is \<open>Handle\<close> from the decoded request to the message it replies with.
  \<^item> \<open>Mdm_Engine\<close>, \<open>Mdm_Handle\<close>, \<open>Mdm_Replies\<close>: the locale \<open>mdm_engine\<close> joins the two contracts. Every step
    keeps a frame (other devices, sessions and nonces, who the session belongs to, the numbering
    of the reply), and from it follow what a request can change, the challenge of a request that
    is not trusted, the acknowledgements, and the delivery of commands.
  \<^item> \<open>Mdm_Inmem\<close>: the interpretation over the in-memory stores, the state machine \<open>served\<close> of requests
    and operations on the queue, and the properties of the running service.

  \<^bold>\<open>Enrollments and the composed system.\<close>
  \<^item> \<open>Enrollment_Store\<close>: \<open>storage/storage.go\<close>, \<open>storage/inmem/inmem.go\<close>, \<open>credential.go\<close>, \<open>recorder.go\<close>, \<open>mdmauth.go\<close>.
    The locale \<open>enrollment_store\<close> is the contract of a store as a table of enrollments; the recorder,
    unenrollment and the authenticator are its clients, the in-memory store interprets it.
  \<^item> \<open>Mdm_System\<close>: the service over that store as the state machine \<open>running\<close>. The hypothesis the engine
    makes of its authenticator is proved of the store, so the isolation of devices holds of the
    whole system without it; unenrollment, replacement and the evidence for trust follow.

  \<^bold>\<open>Around the service.\<close>
  \<^item> \<open>Mdm_Reconcile\<close>: \<open>mdmprotocol/mdm/reconcile.go\<close>; reading back what a device acknowledged ends over
    any queue that keeps the contract, and a diff that was acknowledged leaves nothing to send.
  \<^item> \<open>Ratelimit\<close>: \<open>ratelimit/ratelimit.go\<close> and \<open>http.go\<close> over \<open>State_Store\<close>; the rate granted is bounded
    however requests interleave, \<open>RetryAfter\<close> is exact, and a peer cannot forge its key.

  \<^bold>\<open>Parameters.\<close> The digest and key derivation functions are the fields of \<open>crypto\<close>; the clock,
  \<open>ctx.Err()\<close> and the random source are functions of a counter of readings; hooks are a function of
  the calls made before; the authenticator is a record of two functions, of which the engine
  needs that an enrollment key belongs to one device (\<open>keys_owned\<close>). Loops are structural recursions
  or \<open>function\<close>s with a measure, apart from \<open>ack_loop\<close>, a \<open>partial_function\<close> that is proved to return;
  there is no fuel.

  \<^bold>\<open>Not modelled.\<close> Decoding, which rests on the token stream of \<open>encoding/xml\<close>; HTTP, SOAP, SQL, TLS and
  certificates, whose work is done by libraries and services; the enrollment protocol and the
  push client, which are exchanges with them; the schema tables generated from the vendor's
  files and their generator; telemetry, the simulator and the test suites. The iteration order of
  a Go map, which the language leaves open, is the order of the association list; the texts of
  errors are left out except where the source compares them.
\<close>

end
